theory Spec2Isabelle
  imports Complex_Main "HOL-Library.Sublist" "HOL-Library.AList"
begin

section \<open>JavaScript strings\<close>

text \<open>
  The assistant is written in JavaScript. Its strings are modelled by HOL strings: a
  \<^typ>\<open>char\<close> stands for one code unit in the range U+0000 to U+00FF, so \<open>length\<close> is
  the \<open>length\<close> property for every text made of such characters. The canned answers and
  the loading notice contain a few characters beyond that range (an arrow, a bullet and
  pictographs); they are written \<open>->\<close>, \<open>*\<close> and \<open>#\<close>. Only the identity of an answer
  and its being non-empty are ever used.
\<close>

definition lower_char :: "char \<Rightarrow> char" where
  "lower_char c =
     (let n = (of_char c :: nat)
      in if (65 \<le> n \<and> n \<le> 90) \<or> (192 \<le> n \<and> n \<le> 222 \<and> n \<noteq> 215)
         then char_of (n + 32) else c)"

definition toLowerCase :: "string \<Rightarrow> string" where
  "toLowerCase s = map lower_char s"

text \<open>The regular expression classes \<open>\s\<close> and \<open>\w\<close>.\<close>

definition is_space :: "char \<Rightarrow> bool" where
  "is_space c =
     (let n = (of_char c :: nat)
      in (9 \<le> n \<and> n \<le> 13) \<or> n = 32 \<or> n = 160)"

definition is_word_char :: "char \<Rightarrow> bool" where
  "is_word_char c =
     (let n = (of_char c :: nat)
      in (48 \<le> n \<and> n \<le> 57) \<or> (65 \<le> n \<and> n \<le> 90) \<or> n = 95 \<or> (97 \<le> n \<and> n \<le> 122))"

text \<open>\<open>s.includes(t)\<close>: \<open>t\<close> occurs in \<open>s\<close> as a contiguous substring.\<close>

fun js_includes :: "string \<Rightarrow> string \<Rightarrow> bool" where
  "js_includes [] t = (t = [])"
| "js_includes (c # s) t = (prefix t (c # s) \<or> js_includes s t)"

definition trim :: "string \<Rightarrow> string" where
  "trim s = rev (dropWhile is_space (rev (dropWhile is_space s)))"

text \<open>\<open>s.replace(/pat/g, '')\<close> for a literal pattern: every occurrence, left to right.\<close>

function remove_all :: "string \<Rightarrow> string \<Rightarrow> string" where
  "remove_all pat [] = []"
| "remove_all pat (c # s) =
     (if pat \<noteq> [] \<and> prefix pat (c # s) then remove_all pat (drop (length pat) (c # s))
      else c # remove_all pat s)"
  by pat_completeness auto
termination
  by (relation "measure (\<lambda>(pat, s). length s)") auto

text \<open>\<open>s.replace(/\s+/g, ' ')\<close>: every maximal run of white space becomes one blank.\<close>

function collapse_whitespace :: "string \<Rightarrow> string" where
  "collapse_whitespace [] = []"
| "collapse_whitespace (c # s) =
     (if is_space c then CHR '' '' # collapse_whitespace (dropWhile is_space s)
      else c # collapse_whitespace s)"
  by pat_completeness auto
termination
  by (relation "measure length") (auto simp: length_dropWhile_le less_Suc_eq_le)

text \<open>
  \<open>s.split(/[...]+/)\<close> for a class of separator characters: the pieces between maximal
  runs of separators; a run at either end leaves an empty piece there, and the empty
  string gives one empty piece.
\<close>

function split_runs :: "(char \<Rightarrow> bool) \<Rightarrow> string \<Rightarrow> string \<Rightarrow> string list" where
  "split_runs sep piece [] = [piece]"
| "split_runs sep piece (c # s) =
     (if sep c then piece # split_runs sep [] (dropWhile sep s)
      else split_runs sep (piece @ [c]) s)"
  by pat_completeness auto
termination
  by (relation "measure (\<lambda>(sep, piece, s). length s)") (auto simp: length_dropWhile_le less_Suc_eq_le)

definition is_sentence_end :: "char \<Rightarrow> bool" where
  "is_sentence_end c = (c = CHR ''.'' \<or> c = CHR ''!'' \<or> c = CHR ''?'')"

definition split_sentences :: "string \<Rightarrow> string list" where
  "split_sentences s = split_runs is_sentence_end [] s"

definition split_words :: "string \<Rightarrow> string list" where
  "split_words s = split_runs is_space [] s"

fun js_join :: "string \<Rightarrow> string list \<Rightarrow> string" where
  "js_join sep [] = []"
| "js_join sep [x] = x"
| "js_join sep (x # y # ys) = x @ sep @ js_join sep (y # ys)"

section \<open>LocalRAG: the retrieval engine\<close>

datatype error = TypeError | HostFailure

subsection \<open>Edit distance\<close>

text \<open>
  \<open>calculateLevenshteinDistance(a, b)\<close> fills a matrix of \<open>b.length + 1\<close> rows and
  \<open>a.length + 1\<close> columns: first row and first column by index, then row by row. Every
  index the loops use lies inside the matrix.
\<close>

definition fillRow0 :: "nat list list \<Rightarrow> nat \<Rightarrow> nat list list" where
  "fillRow0 matrix n = fold (\<lambda>i m. m[0 := (m ! 0)[i := i]]) [0..<Suc n] matrix"

definition fillCol0 :: "nat list list \<Rightarrow> nat \<Rightarrow> nat list list" where
  "fillCol0 matrix n = fold (\<lambda>j m. m[j := (m ! j)[0 := j]]) [0..<Suc n] matrix"

definition fillCell :: "'a list \<Rightarrow> 'a list \<Rightarrow> nat \<Rightarrow> nat \<Rightarrow> nat list list \<Rightarrow> nat list list" where
  "fillCell a b j i m =
     (let cost = (if a ! (i - 1) = b ! (j - 1) then 0 else 1)
      in m[j := (m ! j)[i := min (min (m ! (j - 1) ! i + 1) (m ! j ! (i - 1) + 1))
                                  (m ! (j - 1) ! (i - 1) + cost)]])"

definition fillRow :: "'a list \<Rightarrow> 'a list \<Rightarrow> nat \<Rightarrow> nat list list \<Rightarrow> nat list list" where
  "fillRow a b j m = fold (fillCell a b j) [1..<Suc (length a)] m"

definition calculateLevenshteinDistance :: "'a list \<Rightarrow> 'a list \<Rightarrow> nat" where
  "calculateLevenshteinDistance a b =
     (let matrix0 = replicate (length b + 1) (replicate (length a + 1) 0);
          matrix1 = fillRow0 matrix0 (length a);
          matrix2 = fillCol0 matrix1 (length b);
          matrix3 = fold (fillRow a b) [1..<Suc (length b)] matrix2
      in matrix3 ! length b ! length a)"

text \<open>
  The reference: the edit distance by its recurrence, where deleting, inserting and
  substituting one character cost 1 each.
\<close>

fun edit_distance :: "'a list \<Rightarrow> 'a list \<Rightarrow> nat" where
  "edit_distance [] ys = length ys"
| "edit_distance xs [] = length xs"
| "edit_distance (x # xs) (y # ys) =
     min (min (edit_distance xs (y # ys) + 1) (edit_distance (x # xs) ys + 1))
         (edit_distance xs ys + (if x = y then 0 else 1))"

text \<open>
  What the recurrence measures: scripts of single-character edits that turn one string
  into another, and the number of edits in a script that change something.
\<close>

datatype 'a edit = Keep | Substitute 'a | Insert 'a | Delete

fun apply_edits :: "'a edit list \<Rightarrow> 'a list \<Rightarrow> 'a list option" where
  "apply_edits [] xs = (if xs = [] then Some [] else None)"
| "apply_edits (Insert y # es) xs = map_option (Cons y) (apply_edits es xs)"
| "apply_edits (Keep # es) (x # xs) = map_option (Cons x) (apply_edits es xs)"
| "apply_edits (Substitute y # es) (x # xs) = map_option (Cons y) (apply_edits es xs)"
| "apply_edits (Delete # es) (x # xs) = apply_edits es xs"
| "apply_edits (e # es) [] = None"

definition edit_cost :: "'a edit list \<Rightarrow> nat" where
  "edit_cost es = length (filter (\<lambda>e. e \<noteq> Keep) es)"

text \<open>What the proof of the matrix algorithm tracks: dimensions and filled cells.\<close>

definition dims :: "nat \<Rightarrow> nat \<Rightarrow> nat list list \<Rightarrow> bool" where
  "dims na nb m \<longleftrightarrow> length m = Suc nb \<and> (\<forall>r < Suc nb. length (m ! r) = Suc na)"

definition prefix_distance :: "'a list \<Rightarrow> 'a list \<Rightarrow> nat \<Rightarrow> nat \<Rightarrow> nat" where
  "prefix_distance a b c r = edit_distance (take c a) (take r b)"

definition filled :: "'a list \<Rightarrow> 'a list \<Rightarrow> nat \<Rightarrow> nat \<Rightarrow> nat list list \<Rightarrow> bool" where
  "filled a b j i m \<longleftrightarrow> dims (length a) (length b) m \<and>
     (\<forall>r c. r < Suc (length b) \<longrightarrow> c < Suc (length a) \<longrightarrow>
        (r = 0 \<or> c = 0 \<or> r < j \<or> (r = j \<and> c < i)) \<longrightarrow>
        m ! r ! c = prefix_distance a b c r)"

subsection \<open>Keyword matching and relevance\<close>

definition isKeywordMatch :: "string \<Rightarrow> string \<Rightarrow> bool" where
  "isKeywordMatch userKeyword triggerKeyword =
     (if userKeyword = triggerKeyword then True
      else if js_includes userKeyword triggerKeyword \<or> js_includes triggerKeyword userKeyword then True
      else if calculateLevenshteinDistance userKeyword triggerKeyword \<le> 1 \<and>
              min (length userKeyword) (length triggerKeyword) \<ge> 4 then True
      else False)"

text \<open>
  The score is the quotient of two array lengths computed with JavaScript's \<open>/\<close>. A
  quotient with divisor 0 is \<open>NaN\<close> or \<open>Infinity\<close>; otherwise it is the ratio (the
  rounding to a double plays no part in what follows). A comparison with \<open>NaN\<close> is false.
\<close>

datatype jsnumber = NaN | Infinity | Number rat

definition js_divide :: "nat \<Rightarrow> nat \<Rightarrow> jsnumber" where
  "js_divide m n =
     (if n = 0 then (if m = 0 then NaN else Infinity) else Number (of_nat m / of_nat n))"

fun js_greater :: "jsnumber \<Rightarrow> rat \<Rightarrow> bool" where
  "js_greater NaN q = False"
| "js_greater Infinity q = True"
| "js_greater (Number p) q = (q < p)"

definition calculateRelevanceScore :: "string list \<Rightarrow> string list \<Rightarrow> jsnumber" where
  "calculateRelevanceScore userKeywords triggerKeywords =
     (let matches = length (filter (\<lambda>trigger. list_ex (\<lambda>userKeyword. isKeywordMatch userKeyword trigger)
                                       userKeywords) triggerKeywords);
          totalTriggers = length triggerKeywords
      in js_divide matches totalTriggers)"

text \<open>
  The loop of \<open>searchRelevantKnowledge\<close> over the entries of one category and layer: an
  entry becomes a match when \<open>score > 0.3\<close>.
\<close>

record knowledge_item =
  issue :: string
  diagnostic_questions :: "string list"
  trigger_keywords :: "string list"
  solutions :: "string list"

definition matchLayerData :: "string list \<Rightarrow> knowledge_item list \<Rightarrow> (knowledge_item \<times> jsnumber) list" where
  "matchLayerData keywords layerData =
     filter (\<lambda>(item, score). js_greater score (3 / 10))
       (map (\<lambda>item. (item, calculateRelevanceScore keywords (trigger_keywords item))) layerData)"

subsection \<open>Keywords of a message\<close>

definition commonPhrases :: "string list" where
  "commonPhrases =
     [''bank connection'', ''direct deposit'', ''profit loss'', ''balance sheet'',
      ''cash flow'', ''pay invoice'', ''online banking'', ''credit card'',
      ''tax calculation'', ''inventory tracking'', ''stock levels'']"

definition extractPhrases :: "string \<Rightarrow> string list" where
  "extractPhrases message = filter (\<lambda>phrase. js_includes message phrase) commonPhrases"

definition extractKeywords :: "string \<Rightarrow> string list" where
  "extractKeywords message =
     (let words = filter (\<lambda>word. length word > 2)
                    (split_words (map (\<lambda>c. if is_word_char c \<or> is_space c then c else CHR '' '')
                                      (toLowerCase message)));
          phrases = extractPhrases (toLowerCase message)
      in words @ phrases)"

subsection \<open>Relevant categories\<close>

text \<open>
  \<open>searchIndex.keywords\<close> is a parsed JSON object: its own properties map a keyword to an
  array of category names. Reading \<open>obj[key]\<close> looks at the own properties first and then
  at \<open>Object.prototype\<close>, whose members (functions, and the prototype object itself
  under \<open>__proto__\<close>) are truthy and cannot be iterated: \<open>for ... of\<close> over one of them
  throws a \<open>TypeError\<close>.
\<close>

type_synonym keyword_index = "(string \<times> string list) list"

datatype property_value = Undefined | Array "string list" | InheritedMember

definition object_prototype_names :: "string list" where
  "object_prototype_names =
     [''constructor'', ''__defineGetter__'', ''__defineSetter__'', ''hasOwnProperty'',
      ''__lookupGetter__'', ''__lookupSetter__'', ''isPrototypeOf'', ''propertyIsEnumerable'',
      ''toString'', ''valueOf'', ''__proto__'', ''toLocaleString'']"

definition get_property :: "keyword_index \<Rightarrow> string \<Rightarrow> property_value" where
  "get_property obj key =
     (case map_of obj key of
        Some v \<Rightarrow> Array v
      | None \<Rightarrow> if key \<in> set object_prototype_names then InheritedMember else Undefined)"

text \<open>
  \<open>categoryScores\<close> starts with one property per declared category, in declared order.
  \<open>categoryScores[category] += 1\<close> counts for such a property; for any other name it
  stores a value that is not a number (\<open>undefined + 1\<close> is \<open>NaN\<close>, an inherited member plus
  1 is a string that does not read as a number) in a new property. Such a property never
  passes the filter \<open>score > 0\<close>, so its place among the entries does not matter.
  Assigning to \<open>__proto__\<close> a value that is no object changes nothing.
\<close>

datatype score = Count nat | NotNumeric

definition categories :: "string list" where
  "categories = [''banking'', ''invoicing'', ''payroll'', ''reports'', ''inventory'']"

definition add_one :: "string \<Rightarrow> (string \<times> score) list \<Rightarrow> (string \<times> score) list" where
  "add_one category categoryScores =
     (case map_of categoryScores category of
        Some (Count n) \<Rightarrow> AList.update category (Count (n + 1)) categoryScores
      | Some NotNumeric \<Rightarrow> categoryScores
      | None \<Rightarrow> if category = ''__proto__'' then categoryScores
                else categoryScores @ [(category, NotNumeric)])"

fun score_keywords ::
  "keyword_index \<Rightarrow> string list \<Rightarrow> (string \<times> score) list \<Rightarrow> error + (string \<times> score) list" where
  "score_keywords index [] categoryScores = Inr categoryScores"
| "score_keywords index (keyword # keywords) categoryScores =
     (case get_property index keyword of
        Undefined \<Rightarrow> score_keywords index keywords categoryScores
      | Array cats \<Rightarrow> score_keywords index keywords (fold add_one cats categoryScores)
      | InheritedMember \<Rightarrow> Inl TypeError)"

fun positive :: "score \<Rightarrow> bool" where
  "positive (Count n) = (n > 0)"
| "positive NotNumeric = False"

fun count_of :: "score \<Rightarrow> nat" where
  "count_of (Count n) = n"
| "count_of NotNumeric = 0"

text \<open>
  \<open>sort(([, a], [, b]) => b - a)\<close> on positive counts: descending, and stable, so equal
  scores keep the order of the properties.
\<close>

definition identifyRelevantCategories :: "keyword_index \<Rightarrow> string list \<Rightarrow> error + string list" where
  "identifyRelevantCategories index keywords =
     (case score_keywords index keywords (map (\<lambda>cat. (cat, Count 0)) categories) of
        Inl e \<Rightarrow> Inl e
      | Inr categoryScores \<Rightarrow>
          Inr (take 2 (map fst (sort_key (\<lambda>(category, score). - int (count_of score))
                                  (filter (\<lambda>(category, score). positive score) categoryScores)))))"

text \<open>
  The score the specification gives a category: the number of input keywords whose
  entry in the index lists the category. The code adds one per occurrence in the entry.
\<close>

definition keyword_hits :: "keyword_index \<Rightarrow> string list \<Rightarrow> string \<Rightarrow> nat" where
  "keyword_hits index keywords category =
     length (filter (\<lambda>keyword. case map_of index keyword of
                                  Some cats \<Rightarrow> category \<in> set cats
                                | None \<Rightarrow> False) keywords)"

definition entry_count :: "keyword_index \<Rightarrow> string list \<Rightarrow> string \<Rightarrow> nat" where
  "entry_count index keywords category =
     sum_list (map (\<lambda>keyword. case map_of index keyword of
                                 Some cats \<Rightarrow> count_list cats category
                               | None \<Rightarrow> 0) keywords)"

text \<open>
  The shape of \<open>categoryScores\<close> during the loop: a count for each declared category, in
  declared order, and then properties that hold no number.
\<close>

definition scores_of :: "(string \<Rightarrow> nat) \<Rightarrow> (string \<times> score) list \<Rightarrow> (string \<times> score) list" where
  "scores_of f extra = map (\<lambda>cat. (cat, Count (f cat))) categories @ extra"

definition extra_ok :: "(string \<times> score) list \<Rightarrow> bool" where
  "extra_ok extra \<longleftrightarrow> (\<forall>(k, v) \<in> set extra. v = NotNumeric \<and> k \<notin> set categories)"

section \<open>SmolLMBrain: the response pipeline\<close>

subsection \<open>State\<close>

text \<open>
  The fields of the class that the pipeline reads or writes. \<open>responseCache\<close> is a
  JavaScript \<open>Map\<close>: an association list in insertion order with distinct keys.
  \<open>llamaCpp\<close> and \<open>model\<close> hold a handle of the runtime or \<open>null\<close>.
\<close>

type_synonym handle = nat

record brain =
  isLoading :: bool
  isReady :: bool
  llamaCpp :: "handle option"
  wasmConfig :: "(string \<times> string) list option"
  model :: "handle option"
  responseCache :: "(string \<times> string) list"
  maxCacheSize :: nat
  ragReady :: bool

definition SmolLMBrain :: brain where
  "SmolLMBrain =
     \<lparr>isLoading = False, isReady = False, llamaCpp = None, wasmConfig = None, model = None,
      responseCache = [], maxCacheSize = 50, ragReady = False\<rparr>"

subsection \<open>Initialization\<close>

text \<open>
  What the host does when asked: the dynamic import of the runtime module (its \<open>Wllama\<close>
  export), the construction of the runtime object, the download of the weights, and the
  initialization of the retrieval engine. Each either fails or delivers.
\<close>

record loader =
  importWllama :: "error + handle option"
  constructWllama :: "error + handle"
  loadModelFromUrl :: "error + unit"
  ragInitialize :: "error + bool"

definition wllama_assets :: "(string \<times> string) list" where
  "wllama_assets =
     [(''single-thread/wllama.js'', ''https://cdn.jsdelivr.net/npm/@wllama/wllama@2.3.5/esm/single-thread/wllama.js''),
      (''single-thread/wllama.wasm'', ''https://cdn.jsdelivr.net/npm/@wllama/wllama@2.3.5/esm/single-thread/wllama.wasm''),
      (''multi-thread/wllama.js'', ''https://cdn.jsdelivr.net/npm/@wllama/wllama@2.3.5/esm/multi-thread/wllama.js''),
      (''multi-thread/wllama.wasm'', ''https://cdn.jsdelivr.net/npm/@wllama/wllama@2.3.5/esm/multi-thread/wllama.wasm''),
      (''multi-thread/wllama.worker.mjs'', ''https://cdn.jsdelivr.net/npm/@wllama/wllama@2.3.5/esm/multi-thread/wllama.worker.mjs'')]"

definition loadLlamaCppWasm :: "loader \<Rightarrow> brain \<Rightarrow> brain" where
  "loadLlamaCppWasm host s =
     (case importWllama host of
        Inr wllama \<Rightarrow> s\<lparr>llamaCpp := wllama, wasmConfig := Some wllama_assets\<rparr>
      | Inl e \<Rightarrow> s\<lparr>llamaCpp := None, wasmConfig := None\<rparr>)"

definition loadModel :: "loader \<Rightarrow> brain \<Rightarrow> brain" where
  "loadModel host s =
     (if llamaCpp s = None \<or> wasmConfig s = None then s
      else case constructWllama host of
             Inl e \<Rightarrow> s\<lparr>model := None\<rparr>
           | Inr m \<Rightarrow>
               (case loadModelFromUrl host of
                  Inl e \<Rightarrow> s\<lparr>model := None\<rparr>
                | Inr u \<Rightarrow> s\<lparr>model := Some m\<rparr>))"

definition initializeRAG :: "loader \<Rightarrow> brain \<Rightarrow> brain" where
  "initializeRAG host s =
     (case ragInitialize host of
        Inr loaded \<Rightarrow> s\<lparr>ragReady := loaded\<rparr>
      | Inl e \<Rightarrow> s\<lparr>ragReady := False\<rparr>)"

text \<open>
  Each of the three steps catches every exception in its own body, so the \<open>catch\<close> of
  \<open>initialize\<close> (which would return \<open>false\<close>) has nothing to catch: after the steps the
  brain is marked ready.
\<close>

definition initialize :: "loader \<Rightarrow> brain \<Rightarrow> bool \<times> brain" where
  "initialize host s =
     (if isLoading s \<or> isReady s then (isReady s, s)
      else let s1 = s\<lparr>isLoading := True\<rparr>;
               s2 = loadLlamaCppWasm host s1;
               s3 = loadModel host s2;
               s4 = initializeRAG host s3
           in (True, s4\<lparr>isReady := True, isLoading := False\<rparr>))"

text \<open>A loading step fails: the import, the construction or the download.\<close>

definition loading_step_fails :: "loader \<Rightarrow> bool" where
  "loading_step_fails host \<longleftrightarrow>
     isl (importWllama host) \<or> isl (constructWllama host) \<or> isl (loadModelFromUrl host)"

definition getStatus :: "brain \<Rightarrow> string \<times> string" where
  "getStatus s =
     (if isLoading s then (''loading'', ''Loading SmolLM2...'')
      else if isReady s then (''ready'', ''SmolLM2 ready'')
      else (''offline'', ''SmolLM2 not loaded''))"

subsection \<open>The response cache\<close>

definition normalizeMessage :: "string \<Rightarrow> string" where
  "normalizeMessage message =
     take 100 (trim (collapse_whitespace
       (filter (\<lambda>c. is_word_char c \<or> is_space c) (toLowerCase message))))"

text \<open>
  \<open>Map.get\<close> followed by the test \<open>if (cachedResponse)\<close>: a missing key gives
  \<open>undefined\<close>, and the empty string is falsy as well.
\<close>

definition cache_hit :: "(string \<times> string) list \<Rightarrow> string \<Rightarrow> string option" where
  "cache_hit cache key =
     (case map_of cache key of
        Some cachedResponse \<Rightarrow> if cachedResponse \<noteq> [] then Some cachedResponse else None
      | None \<Rightarrow> None)"

text \<open>
  \<open>keys().next().value\<close> is the key inserted first (\<open>undefined\<close> for an empty map, and
  deleting that removes nothing); \<open>set\<close> overwrites the value of a key already present
  and appends a new key at the end.
\<close>

definition cacheResponse :: "string \<Rightarrow> string \<Rightarrow> brain \<Rightarrow> brain" where
  "cacheResponse key response s =
     (let cache = responseCache s;
          cache' = (if length cache \<ge> maxCacheSize s
                    then (case cache of [] \<Rightarrow> cache | (firstKey, v) # rest \<Rightarrow> AList.delete firstKey cache)
                    else cache)
      in s\<lparr>responseCache := AList.update key response cache'\<rparr>)"

text \<open>What holds of the cache in every reachable state.\<close>

definition cache_ok :: "brain \<Rightarrow> bool" where
  "cache_ok s \<longleftrightarrow> distinct (map fst (responseCache s)) \<and>
     length (responseCache s) \<le> maxCacheSize s \<and> 1 \<le> maxCacheSize s"

text \<open>
  Every cached text is non-empty as well: only accepted model texts are stored. The
  place of a key among the entries, and the number of insertions of new keys that the
  entry of a key is sure to survive.
\<close>

definition cache_wf :: "brain \<Rightarrow> bool" where
  "cache_wf s \<longleftrightarrow> cache_ok s \<and> [] \<notin> snd ` set (responseCache s)"



subsection \<open>Cleaning and judging model output\<close>

definition strip_assistant_label :: "string \<Rightarrow> string" where
  "strip_assistant_label s =
     (if toLowerCase (take 9 s) = ''assistant'' then dropWhile is_space (drop 9 s) else s)"

definition cleanResponse :: "string \<Rightarrow> string" where
  "cleanResponse text =
     (let text1 = trim (strip_assistant_label
                    (remove_all ''<|im_end|>'' (remove_all ''<|im_start|>'' text)));
          sentences = split_sentences text1
      in if length sentences > 1 \<and> length (trim (last sentences)) < 10
         then js_join ''.'' (butlast sentences) @ ''.''
         else text1)"

definition badPhrases :: "string list" where
  "badPhrases =
     [''I'm sorry for the confusion'',
      ''I'm unable to provide'',
      ''I'm not equipped to'',
      ''I can't help with'',
      ''I don't have access'',
      ''as a UDAS-guided AI'',
      ''I'm designed to assist you with your business needs'']"

definition isGenericResponse :: "string \<Rightarrow> bool" where
  "isGenericResponse text =
     (let hasGenericAvoidance =
            list_ex (\<lambda>phrase. js_includes (toLowerCase text) (toLowerCase phrase)) badPhrases;
          tooShortAndGeneric =
            (length text < 30 \<and>
             (js_includes (toLowerCase text) ''help'' \<or> js_includes (toLowerCase text) ''assist''))
      in hasGenericAvoidance \<or> tooShortAndGeneric)"

subsection \<open>The rule table\<close>

definition banking_answer :: string where
  \<open>banking_answer =
     ''I understand how frustrating bank connection issues can be! Let's work through this systematically using UDAS troubleshooting.\<newline>\<newline>First, let's check the User layer - have you successfully logged into your bank's website today using the same credentials you use for QuickBooks? I'm asking this because banks often require you to log in directly before allowing third-party connections.\<newline>\<newline>While you check that, here's a quick tip: Most connection issues resolve when you verify your online banking is active first.''\<close>

definition invoicing_answer :: string where
  \<open>invoicing_answer =
     ''Create professional invoices in QuickBooks:\<newline>\<newline>1. Go to **Sales** -> **Invoices** -> **Create Invoice**\<newline>2. Select or add customer details\<newline>3. Add products/services with quantities and rates\<newline>4. Set payment terms and due date\<newline>5. Email directly or download PDF\<newline>\<newline>**Pro tip**: Set up recurring invoices for regular clients under **Recurring Transactions**.''\<close>

definition expenses_answer :: string where
  \<open>expenses_answer =
     ''Track expenses efficiently:\<newline>\<newline>1. **Mobile**: Use QuickBooks app to photograph receipts instantly\<newline>2. **Desktop**: Go to **Expenses** -> **Add Expense**\<newline>3. Enter vendor, amount, and category\<newline>4. Upload receipt image\<newline>5. Link to projects if applicable\<newline>\<newline>**Smart feature**: Receipt capture auto-extracts vendor, date, and amount data.''\<close>

definition payroll_answer :: string where
  \<open>payroll_answer =
     ''QuickBooks Payroll setup:\<newline>\<newline>1. **Upgrade**: Payroll requires subscription ($45/month + $6/employee)\<newline>2. **Setup**: Go to **Payroll** -> **Get Started**\<newline>3. **Employees**: Add worker details, tax info, pay rates\<newline>4. **Schedule**: Set pay frequency (weekly, bi-weekly, monthly)\<newline>5. **Run**: Process payroll and handle tax filings automatically\<newline>\<newline>**Includes**: Direct deposit, tax calculations, W-2s, and compliance.''\<close>

definition reports_answer :: string where
  \<open>reports_answer =
     ''Generate key financial reports:\<newline>\<newline>**Profit & Loss**: Shows income vs expenses over time\<newline>**Balance Sheet**: Assets, liabilities, and equity snapshot\<newline>**Cash Flow**: Track money in/out by period\<newline>\<newline>**Steps**: **Reports** -> Search report name -> Select date range -> **Run Report**\<newline>\<newline>**Customize**: Filter by class, location, or customer for detailed analysis.''\<close>

definition tax_answer :: string where
  \<open>tax_answer =
     ''QuickBooks tax features:\<newline>\<newline>**Sales Tax**: **Taxes** -> **Sales Tax** -> Set up rates and track automatically\<newline>**1099s**: **Payroll** -> **Contractors** -> Generate 1099-NEC forms\<newline>**Deductions**: Categorize expenses properly for tax writeoffs\<newline>**Export**: Send data directly to TurboTax or accountant\<newline>\<newline>**Year-end**: Run tax summary reports and backup your data.''\<close>

definition inventory_answer :: string where
  \<open>inventory_answer =
     ''Manage inventory in QuickBooks:\<newline>\<newline>1. **Enable**: **Settings** -> **Account & Settings** -> **Sales** -> Turn on inventory tracking\<newline>2. **Add Items**: **Sales** -> **Products & Services** -> **New** -> **Inventory**\<newline>3. **Set Details**: SKU, cost, sale price, quantity on hand\<newline>4. **Reorder**: Set reorder points for low stock alerts\<newline>5. **Track**: Quantities auto-update with sales and purchases\<newline>\<newline>**Reports**: Use inventory reports to monitor stock levels and valuation.''\<close>

definition troubleshooting_answer :: string where
  \<open>troubleshooting_answer =
     ''QuickBooks troubleshooting steps:\<newline>\<newline>**Browser Issues**:\<newline>* Clear cache and cookies\<newline>* Try incognito/private mode\<newline>* Disable browser extensions\<newline>* Update browser to latest version\<newline>\<newline>**Sync Problems**:\<newline>* Check internet connection\<newline>* Update bank credentials\<newline>* Refresh browser page\<newline>\<newline>**Need Help?**: Contact QuickBooks Support at **1-800-446-8848** or use in-app chat.''\<close>

definition default_answer :: string where
  \<open>default_answer =
     ''I'm your QuickBooks Online AI assistant! I can help with:\<newline>\<newline># **Banking** - Connect accounts, categorize transactions\<newline># **Invoicing** - Create professional invoices, set up recurring billing\<newline># **Reports** - P&L, Balance Sheet, Cash Flow analysis\<newline># **Expenses** - Receipt capture, expense tracking, tax deductions\<newline># **Payroll** - Employee management, tax compliance, direct deposit\<newline># **Inventory** - Stock tracking, reorder alerts, product management\<newline># **Setup & Support** - Account configuration, troubleshooting\<newline>\<newline>**What specific QuickBooks task can I help you with today?**''\<close>

definition getQuickBooksGuidance :: "string \<Rightarrow> string" where
  "getQuickBooksGuidance userMessage =
     (let message = toLowerCase userMessage
      in if js_includes message ''bank'' \<or> js_includes message ''connect'' \<or> js_includes message ''link''
         then banking_answer
         else if js_includes message ''invoice'' \<or> js_includes message ''bill'' \<or> js_includes message ''customer''
         then invoicing_answer
         else if js_includes message ''expense'' \<or> js_includes message ''receipt'' \<or> js_includes message ''cost''
         then expenses_answer
         else if js_includes message ''payroll'' \<or> js_includes message ''employee'' \<or> js_includes message ''salary''
         then payroll_answer
         else if js_includes message ''report'' \<or> js_includes message ''profit'' \<or> js_includes message ''loss''
                 \<or> js_includes message ''financial''
         then reports_answer
         else if js_includes message ''tax'' \<or> js_includes message ''1099'' \<or> js_includes message ''deduction''
         then tax_answer
         else if js_includes message ''inventory'' \<or> js_includes message ''product'' \<or> js_includes message ''stock''
         then inventory_answer
         else if js_includes message ''error'' \<or> js_includes message ''problem''
                 \<or> js_includes message ''not working'' \<or> js_includes message ''issue''
         then troubleshooting_answer
         else default_answer)"

text \<open>
  The rule table as the specification words it: ordered groups of keywords, the first
  group with a keyword in the lowercased message wins, and the default answer otherwise.
\<close>

fun first_matching_group :: "(string list \<times> string) list \<Rightarrow> string \<Rightarrow> string \<Rightarrow> string" where
  "first_matching_group [] otherwise message = otherwise"
| "first_matching_group ((keywords, answer) # groups) otherwise message =
     (if list_ex (js_includes message) keywords then answer
      else first_matching_group groups otherwise message)"

definition specified_groups :: "(string list \<times> string) list" where
  "specified_groups =
     [([''banking'', ''connect'', ''link''], banking_answer),
      ([''invoice'', ''bill'', ''customer''], invoicing_answer),
      ([''expense'', ''receipt'', ''cost''], expenses_answer),
      ([''payroll'', ''employee'', ''salary''], payroll_answer),
      ([''report'', ''profit'', ''loss'', ''financial''], reports_answer),
      ([''tax'', ''1099'', ''deduction''], tax_answer),
      ([''inventory'', ''product'', ''stock''], inventory_answer),
      ([''error'', ''problem'', ''issue''], troubleshooting_answer)]"

definition specified_fallback :: "string \<Rightarrow> string" where
  "specified_fallback userMessage =
     first_matching_group specified_groups default_answer (toLowerCase userMessage)"

definition coded_groups :: "(string list \<times> string) list" where
  "coded_groups =
     [([''bank'', ''connect'', ''link''], banking_answer),
      ([''invoice'', ''bill'', ''customer''], invoicing_answer),
      ([''expense'', ''receipt'', ''cost''], expenses_answer),
      ([''payroll'', ''employee'', ''salary''], payroll_answer),
      ([''report'', ''profit'', ''loss'', ''financial''], reports_answer),
      ([''tax'', ''1099'', ''deduction''], tax_answer),
      ([''inventory'', ''product'', ''stock''], inventory_answer),
      ([''error'', ''problem'', ''not working'', ''issue''], troubleshooting_answer)]"

subsection \<open>Answering a message\<close>

text \<open>
  One call of \<open>generateResponse\<close> talks to the outside at most twice: to the retrieval
  engine (\<open>determineCurrentUdasLayer\<close>, \<open>searchRelevantKnowledge\<close> and
  \<open>formatContextForPrompt\<close>, which together give the context text for a message or
  throw) and to the model (\<open>createCompletion\<close>, which gives the completion of a prompt or
  throws). Their behaviour during a call is a parameter of the call, and the calls made
  are recorded in the order they happen.
\<close>

record call_env =
  retrieveContext :: "string \<Rightarrow> error + string"
  createCompletion :: "string \<Rightarrow> error + string"

datatype effect = Retrieval string | Inference string

record response =
  success :: bool
  message :: string
  source :: "string option"

definition prompt_system :: string where
  \<open>prompt_system =
     ''<|im_start|>system\<newline>You are a QuickBooks Online expert who uses UDAS methodology to systematically troubleshoot issues.\<newline>\<newline>UDAS Framework:\<newline>- USER layer: Check permissions, user training, workflow issues first\<newline>- DATA layer: Look for duplicates, missing entries, corrupted data\<newline>- APPLICATION layer: Browser problems, cache issues, QuickBooks bugs\<newline>- SYSTEM layer: Internet connectivity, external service issues\<newline>\<newline>Response Format:\<newline>1. Acknowledge the issue with empathy\<newline>2. Ask ONE specific diagnostic question (start with User layer)\<newline>3. Briefly explain why you're asking this question\<newline>4. Provide a helpful tip while they investigate\<newline>\<newline>Example Response:\<newline>"I understand how frustrating bank connection issues can be! Let's solve this systematically.\<newline>\<newline>First, let's check the User layer - have you successfully logged into your bank's website today using the same credentials? I'm asking because banks often require direct login before allowing third-party connections.\<newline>\<newline>While you check that, here's a tip: Most connection issues resolve when you verify your online banking is active first."''\<close>

definition prompt_user :: string where
  \<open>prompt_user =
     ''<|im_end|>\<newline><|im_start|>user\<newline>''\<close>

definition prompt_assistant :: string where
  \<open>prompt_assistant =
     ''<|im_end|>\<newline><|im_start|>assistant\<newline>''\<close>

definition buildPrompt :: "string \<Rightarrow> string \<Rightarrow> string" where
  "buildPrompt ragContext userMessage =
     prompt_system @ ragContext @ prompt_user @ userMessage @ prompt_assistant"

text \<open>
  The body of the \<open>try\<close> block: an error, an accepted text, or nothing to return (no
  model, or a text the quality gate rejects).
\<close>

definition inferenceAttempt :: "call_env \<Rightarrow> brain \<Rightarrow> string \<Rightarrow> (error + string option) \<times> effect list" where
  "inferenceAttempt env s userMessage =
     (if model s \<noteq> None \<and> llamaCpp s \<noteq> None then
        (case (if ragReady s then retrieveContext env userMessage else Inr []) of
           Inl e \<Rightarrow> (Inl e, [Retrieval userMessage])
         | Inr ragContext \<Rightarrow>
             (let prompt = buildPrompt ragContext userMessage;
                  effects = (if ragReady s then [Retrieval userMessage] else []) @ [Inference prompt]
              in case createCompletion env prompt of
                   Inl e \<Rightarrow> (Inl e, effects)
                 | Inr completion \<Rightarrow>
                     (let text = cleanResponse completion
                      in if length text > 15 \<and> \<not> isGenericResponse text
                         then (Inr (Some text), effects)
                         else (Inr None, effects))))
      else (Inr None, []))"

definition loading_notice :: string where
  "loading_notice = ''# SmolLM2 model is still loading. Please wait...''"

definition rulesResponse :: "string \<Rightarrow> response" where
  "rulesResponse userMessage =
     \<lparr>success = True, message = getQuickBooksGuidance userMessage, source = Some ''enhanced-rules''\<rparr>"

definition generateResponse :: "call_env \<Rightarrow> brain \<Rightarrow> string \<Rightarrow> response \<times> brain \<times> effect list" where
  "generateResponse env s userMessage =
     (if \<not> isReady s then (\<lparr>success = False, message = loading_notice, source = None\<rparr>, s, [])
      else let cacheKey = normalizeMessage userMessage
           in case cache_hit (responseCache s) cacheKey of
                Some cachedResponse \<Rightarrow>
                  (\<lparr>success = True, message = cachedResponse, source = Some ''cache''\<rparr>, s, [])
              | None \<Rightarrow>
                  (case inferenceAttempt env s userMessage of
                     (Inr (Some text), effects) \<Rightarrow>
                       (\<lparr>success = True, message = text, source = Some ''smollm2-local''\<rparr>,
                        cacheResponse cacheKey text s, effects)
                   | (Inr None, effects) \<Rightarrow> (rulesResponse userMessage, s, effects)
                   | (Inl e, effects) \<Rightarrow> (rulesResponse userMessage, s, effects)))"

text \<open>
  A sequence of calls, each with its own behaviour of retrieval and model: the state it
  leaves, and how many of the calls were answered by the model.
\<close>

fun run_calls :: "(call_env \<times> string) list \<Rightarrow> brain \<Rightarrow> brain" where
  "run_calls [] s = s"
| "run_calls ((env, userMessage) # calls) s =
     run_calls calls (fst (snd (generateResponse env s userMessage)))"


subsection \<open>Sample hosts, brains and calls\<close>

text \<open>
  Concrete data for the instances below: a host on which every loading step works, one
  on which the runtime module cannot be imported, the brain a working host leaves
  behind, a brain whose cache is full, and three behaviours of retrieval and model.
\<close>

definition working_host :: loader where
  "working_host =
     \<lparr>importWllama = Inr (Some 1), constructWllama = Inr 2, loadModelFromUrl = Inr (),
      ragInitialize = Inr True\<rparr>"

definition offline_host :: loader where
  "offline_host =
     \<lparr>importWllama = Inl HostFailure, constructWllama = Inl HostFailure,
      loadModelFromUrl = Inl HostFailure, ragInitialize = Inr False\<rparr>"

definition ready_brain :: brain where
  "ready_brain = snd (initialize working_host SmolLMBrain)"

definition fifty_entries :: "(string \<times> string) list" where
  "fifty_entries = map (\<lambda>n. (''question '' @ [char_of n], ''A cached answer of sufficient length.'')) [65..<115]"

definition full_brain :: brain where
  "full_brain = ready_brain\<lparr>responseCache := fifty_entries\<rparr>"

definition answering_env :: call_env where
  "answering_env =
     \<lparr>retrieveContext = (\<lambda>userMessage. Inr []),
      createCompletion = (\<lambda>prompt. Inr ''<|im_start|>assistant Open the Banking tab and press Update to refresh the feed.<|im_end|>'')\<rparr>"

definition terse_env :: call_env where
  "terse_env =
     \<lparr>retrieveContext = (\<lambda>userMessage. Inr []),
      createCompletion = (\<lambda>prompt. Inr ''<|im_start|>assistant Yes, of course.<|im_end|>'')\<rparr>"

definition throwing_env :: call_env where
  "throwing_env =
     \<lparr>retrieveContext = (\<lambda>userMessage. Inl TypeError),
      createCompletion = (\<lambda>prompt. Inl HostFailure)\<rparr>"

definition sample_items :: "knowledge_item list" where
  "sample_items =
     [\<lparr>issue = ''Bank feed does not update'', diagnostic_questions = [''When did the feed last update?''],
       trigger_keywords = [''bank'', ''feed'', ''update''], solutions = [''Refresh the connection.'']\<rparr>,
      \<lparr>issue = ''Entry without triggers'', diagnostic_questions = [], trigger_keywords = [],
       solutions = []\<rparr>]"

definition sample_index :: keyword_index where
  "sample_index =
     [(''bank'', [''banking'']), (''deposit'', [''banking'', ''payroll'']),
      (''paycheck'', [''payroll'']), (''stock'', [''inventory''])]"




section \<open>Edit distance: the matrix algorithm computes the recurrence\<close>

lemma ed_Nil2: "edit_distance xs [] = length xs"
  by (cases xs) simp_all

lemma min3_swap_gen:
  fixes p1 :: nat
  shows "min (min (min (min (p1 + e) (p2 + e)) (p3 + d) + e) (min (min (p4 + e) (p5 + e)) (p6 + d) + e))
             (min (min (p7 + e) (p8 + e)) (p9 + d) + c) =
         min (min (min (min (p1 + e) (p4 + e)) (p7 + c) + e) (min (min (p2 + e) (p5 + e)) (p8 + c) + e))
             (min (min (p3 + e) (p6 + e)) (p9 + c) + d)"
  apply (simp only: min_add_distrib_left)
  apply (simp only: add.assoc add.left_commute add.commute)
  apply (simp only: min.assoc min.left_commute min.commute)
  done

lemmas min3_swap = min3_swap_gen[where e = 1]

lemma ed_single_snoc:
  "edit_distance [x] (ys @ [y]) =
     min (min (length ys + 1 + 1) (edit_distance [x] ys + 1)) (length ys + (if x = y then 0 else 1))"
proof (induction ys)
  case Nil
  show ?case by simp
next
  case (Cons b ys)
  have "edit_distance [x] ((b # ys) @ [y]) =
     min (min (length (ys @ [y]) + 1 + 1) (edit_distance [x] (ys @ [y]) + 1))
         (length (ys @ [y]) + (if x = b then 0 else 1))"
    by simp
  also have "\<dots> = min (min (length ys + 1 + 1 + 1)
        (min (min (length ys + 1 + 1) (edit_distance [x] ys + 1)) (length ys + (if x = y then 0 else 1)) + 1))
         (length ys + 1 + (if x = b then 0 else 1))"
    by (simp only: Cons.IH length_append list.size) simp
  also have "\<dots> = min (min (length (b # ys) + 1 + 1) (edit_distance [x] (b # ys) + 1))
      (length (b # ys) + (if x = y then 0 else 1))"
    by (cases "x = y"; cases "x = b"; simp; linarith)
  finally show ?case .
qed


lemma ed_snoc_single:
  "edit_distance (xs @ [x]) [y] =
     min (min (edit_distance xs [y] + 1) (length xs + 1 + 1)) (length xs + (if x = y then 0 else 1))"
proof (induction xs)
  case Nil
  show ?case by simp
next
  case (Cons a xs)
  have "edit_distance ((a # xs) @ [x]) [y] =
     min (min (edit_distance (xs @ [x]) [y] + 1) (length (xs @ [x]) + 1 + 1))
         (length (xs @ [x]) + (if a = y then 0 else 1))"
    by (simp add: ed_Nil2)
  also have "\<dots> = min (min
        (min (min (edit_distance xs [y] + 1) (length xs + 1 + 1)) (length xs + (if x = y then 0 else 1)) + 1)
        (length xs + 1 + 1 + 1))
         (length xs + 1 + (if a = y then 0 else 1))"
    by (simp only: Cons.IH length_append list.size) simp
  also have "\<dots> = min (min (edit_distance (a # xs) [y] + 1) (length (a # xs) + 1 + 1))
      (length (a # xs) + (if x = y then 0 else 1))"
    by (cases "x = y"; cases "a = y"; simp add: ed_Nil2; linarith)
  finally show ?case .
qed

lemma ed_snoc:
  "edit_distance (xs @ [x]) (ys @ [y]) =
     min (min (edit_distance xs (ys @ [y]) + 1) (edit_distance (xs @ [x]) ys + 1))
         (edit_distance xs ys + (if x = y then 0 else 1))"
proof (induction xs ys rule: edit_distance.induct)
  case (1 ys)
  show ?case using ed_single_snoc[of x ys y] by simp
next
  case (2 a xs)
  show ?case using ed_snoc_single[of "a # xs" x y] by (simp add: ed_Nil2)
next
  case (3 a xs b ys)
  have "edit_distance ((a # xs) @ [x]) ((b # ys) @ [y]) =
      min (min (edit_distance (xs @ [x]) ((b # ys) @ [y]) + 1)
               (edit_distance ((a # xs) @ [x]) (ys @ [y]) + 1))
          (edit_distance (xs @ [x]) (ys @ [y]) + (if a = b then 0 else 1))"
    by simp
  also have "\<dots> =
      min (min (min (min (edit_distance xs ((b # ys) @ [y]) + 1) (edit_distance (xs @ [x]) (b # ys) + 1))
                    (edit_distance xs (b # ys) + (if x = y then 0 else 1)) + 1)
               (min (min (edit_distance (a # xs) (ys @ [y]) + 1) (edit_distance ((a # xs) @ [x]) ys + 1))
                    (edit_distance (a # xs) ys + (if x = y then 0 else 1)) + 1))
          (min (min (edit_distance xs (ys @ [y]) + 1) (edit_distance (xs @ [x]) ys + 1))
               (edit_distance xs ys + (if x = y then 0 else 1)) + (if a = b then 0 else 1))"
    by (simp only: "3.IH")
  also have "\<dots> =
      min (min (min (min (edit_distance xs ((b # ys) @ [y]) + 1) (edit_distance (a # xs) (ys @ [y]) + 1))
                    (edit_distance xs (ys @ [y]) + (if a = b then 0 else 1)) + 1)
               (min (min (edit_distance (xs @ [x]) (b # ys) + 1) (edit_distance ((a # xs) @ [x]) ys + 1))
                    (edit_distance (xs @ [x]) ys + (if a = b then 0 else 1)) + 1))
          (min (min (edit_distance xs (b # ys) + 1) (edit_distance (a # xs) ys + 1))
               (edit_distance xs ys + (if a = b then 0 else 1)) + (if x = y then 0 else 1))"
    by (rule min3_swap)
  also have "\<dots> =
      min (min (edit_distance (a # xs) ((b # ys) @ [y]) + 1) (edit_distance ((a # xs) @ [x]) (b # ys) + 1))
          (edit_distance (a # xs) (b # ys) + (if x = y then 0 else 1))"
    by simp
  finally show ?case .
qed

lemma ed_refl: "edit_distance xs xs = 0"
  by (induction xs) simp_all

lemma fold_upt_invariant:
  assumes "lo \<le> hi" and "P lo m"
    and "\<And>k m'. lo \<le> k \<Longrightarrow> k < hi \<Longrightarrow> P k m' \<Longrightarrow> P (Suc k) (f k m')"
  shows "P hi (fold f [lo..<hi] m)"
  using assms
proof (induction hi)
  case 0
  then show ?case by simp
next
  case (Suc hi)
  show ?case
  proof (cases "lo = Suc hi")
    case True
    with Suc.prems(2) show ?thesis by simp
  next
    case False
    with Suc.prems(1) have le: "lo \<le> hi" by simp
    have "P hi (fold f [lo..<hi] m)"
      using le Suc.prems(2) Suc.prems(3) by (intro Suc.IH) auto
    then have "P (Suc hi) (f hi (fold f [lo..<hi] m))"
      using le by (intro Suc.prems(3)) auto
    then show ?thesis using le by simp
  qed
qed

lemma prefix_distance_row0: "c < Suc (length a) \<Longrightarrow> prefix_distance a b c 0 = c"
  by (simp add: prefix_distance_def ed_Nil2)

lemma prefix_distance_col0: "r < Suc (length b) \<Longrightarrow> prefix_distance a b 0 r = r"
  by (simp add: prefix_distance_def)

lemma prefix_distance_step:
  assumes "i < length a" "j < length b"
  shows "prefix_distance a b (Suc i) (Suc j) =
     min (min (prefix_distance a b (Suc i) j + 1) (prefix_distance a b i (Suc j) + 1))
         (prefix_distance a b i j + (if a ! i = b ! j then 0 else 1))"
  using assms ed_snoc[of "take i a" "a ! i" "take j b" "b ! j"]
  by (simp add: prefix_distance_def take_Suc_conv_app_nth min.commute)

lemma dims_replicate: "dims na nb (replicate (nb + 1) (replicate (na + 1) 0))"
  unfolding dims_def by (simp del: replicate_Suc)

lemma nth_update2:
  "j < length m \<Longrightarrow> i < length (m ! j) \<Longrightarrow>
     m[j := (m ! j)[i := v]] ! r ! c = (if r = j \<and> c = i then v else m ! r ! c)"
  by (cases "r = j") (auto simp: nth_list_update)

lemma length_update2: "length (m[j := (m ! j)[i := v]] ! r) = length (m ! r)"
  by (cases "r = j"; cases "j < length m") (simp_all add: list_update_beyond)

lemma dims_update:
  "dims na nb m \<Longrightarrow> dims na nb (m[j := (m ! j)[i := v]])"
  by (simp add: dims_def length_update2)

lemma fillRow0_correct:
  assumes "dims na nb m"
  shows "dims na nb (fillRow0 m na) \<and> (\<forall>c < Suc na. fillRow0 m na ! 0 ! c = c)"
proof -
  let ?P = "\<lambda>k m'. dims na nb m' \<and> (\<forall>c < k. m' ! 0 ! c = c)"
  have "?P (Suc na) (fold (\<lambda>i m. m[0 := (m ! 0)[i := i]]) [0..<Suc na] m)"
  proof (rule fold_upt_invariant[where P = ?P])
    show "?P 0 m" using assms by simp
  next
    fix k m' assume k: "k < Suc na" and P: "?P k m'"
    have d: "dims na nb (m'[0 := (m' ! 0)[k := k]])" using P by (simp add: dims_update)
    have "0 < length m'" "k < length (m' ! 0)" using P k by (auto simp: dims_def)
    then have "\<forall>c < Suc k. m'[0 := (m' ! 0)[k := k]] ! 0 ! c = c"
      using P by (auto simp: nth_update2 less_Suc_eq)
    with d show "?P (Suc k) (m'[0 := (m' ! 0)[k := k]])" by blast
  qed simp
  then show ?thesis by (auto simp: fillRow0_def)
qed

lemma fillCol0_correct:
  assumes "dims na nb m" and "\<forall>c < Suc na. m ! 0 ! c = c"
  shows "dims na nb (fillCol0 m nb) \<and> (\<forall>c < Suc na. fillCol0 m nb ! 0 ! c = c)
           \<and> (\<forall>r < Suc nb. fillCol0 m nb ! r ! 0 = r)"
proof -
  let ?P = "\<lambda>k m'. dims na nb m' \<and> (\<forall>c < Suc na. m' ! 0 ! c = c) \<and> (\<forall>r < k. m' ! r ! 0 = r)"
  have "?P (Suc nb) (fold (\<lambda>j m. m[j := (m ! j)[0 := j]]) [0..<Suc nb] m)"
  proof (rule fold_upt_invariant[where P = ?P])
    show "?P 0 m" using assms by simp
  next
    fix k m' assume k: "k < Suc nb" and P: "?P k m'"
    let ?m = "m'[k := (m' ! k)[0 := k]]"
    have d: "dims na nb ?m" using P by (simp add: dims_update)
    have len: "k < length m'" "0 < length (m' ! k)" using P k by (auto simp: dims_def)
    have row0: "\<forall>c < Suc na. ?m ! 0 ! c = c"
      using P by (auto simp: nth_update2[OF len])
    have col0: "\<forall>r < Suc k. ?m ! r ! 0 = r"
      using P by (auto simp: nth_update2[OF len] less_Suc_eq)
    from d row0 col0 show "?P (Suc k) ?m" by blast
  qed simp
  then show ?thesis by (auto simp: fillCol0_def)
qed

lemma filled_init:
  assumes "dims (length a) (length b) m" "\<forall>c < Suc (length a). m ! 0 ! c = c" "\<forall>r < Suc (length b). m ! r ! 0 = r"
  shows "filled a b 1 1 m"
  using assms by (auto simp: filled_def prefix_distance_row0 prefix_distance_col0)

lemma fillCell_correct:
  assumes "filled a b (Suc j) (Suc i) m" "j < length b" "i < length a"
  shows "filled a b (Suc j) (Suc (Suc i)) (fillCell a b (Suc j) (Suc i) m)"
proof -
  have d: "dims (length a) (length b) m" using assms(1) by (simp add: filled_def)
  then have len: "Suc j < length m" "Suc i < length (m ! Suc j)"
    using assms(2,3) by (auto simp: dims_def)
  have known: "\<And>r c. r < Suc (length b) \<Longrightarrow> c < Suc (length a) \<Longrightarrow> (r = 0 \<or> c = 0 \<or> r < Suc j \<or> (r = Suc j \<and> c < Suc i))
      \<Longrightarrow> m ! r ! c = prefix_distance a b c r"
    using assms(1) unfolding filled_def by blast
  have up: "m ! j ! Suc i = prefix_distance a b (Suc i) j"
    using assms(2,3) by (intro known) auto
  have left: "m ! Suc j ! i = prefix_distance a b i (Suc j)"
    using assms(2,3) by (intro known) auto
  have diag: "m ! j ! i = prefix_distance a b i j"
    using assms(2,3) by (intro known) auto
  let ?v = "prefix_distance a b (Suc i) (Suc j)"
  have eq: "fillCell a b (Suc j) (Suc i) m = m[Suc j := (m ! Suc j)[Suc i := ?v]]"
    using assms(2,3) by (simp add: fillCell_def up left diag prefix_distance_step)
  have d': "dims (length a) (length b) (m[Suc j := (m ! Suc j)[Suc i := ?v]])"
    using d by (rule dims_update)
  have "m[Suc j := (m ! Suc j)[Suc i := ?v]] ! r ! c = prefix_distance a b c r"
    if "r < Suc (length b)" "c < Suc (length a)" "r = 0 \<or> c = 0 \<or> r < Suc j \<or> (r = Suc j \<and> c < Suc (Suc i))" for r c
  proof (cases "r = Suc j \<and> c = Suc i")
    case True
    then show ?thesis by (simp add: nth_update2[OF len])
  next
    case False
    then have "m[Suc j := (m ! Suc j)[Suc i := ?v]] ! r ! c = m ! r ! c"
      by (auto simp: nth_update2[OF len])
    moreover have "m ! r ! c = prefix_distance a b c r"
      using that False by (intro known) auto
    ultimately show ?thesis by simp
  qed
  with d' show ?thesis unfolding eq filled_def by blast
qed

lemma filled_row_done:
  assumes "filled a b j (Suc (length a)) m"
  shows "filled a b (Suc j) 1 m"
proof -
  have d: "dims (length a) (length b) m" using assms by (simp add: filled_def)
  have known: "\<And>r c. r < Suc (length b) \<Longrightarrow> c < Suc (length a) \<Longrightarrow>
      (r = 0 \<or> c = 0 \<or> r < j \<or> (r = j \<and> c < Suc (length a)))
      \<Longrightarrow> m ! r ! c = prefix_distance a b c r"
    using assms unfolding filled_def by blast
  have "m ! r ! c = prefix_distance a b c r"
    if "r < Suc (length b)" "c < Suc (length a)" "r = 0 \<or> c = 0 \<or> r < Suc j \<or> (r = Suc j \<and> c < 1)" for r c
  proof -
    from that have "r = 0 \<or> c = 0 \<or> r < j \<or> (r = j \<and> c < Suc (length a))" by auto
    with that(1,2) show ?thesis by (rule known)
  qed
  with d show ?thesis unfolding filled_def by blast
qed

lemma fillRow_correct:
  assumes "filled a b (Suc j) 1 m" "j < length b"
  shows "filled a b (Suc (Suc j)) 1 (fillRow a b (Suc j) m)"
proof -
  have "filled a b (Suc j) (Suc (length a)) (fold (fillCell a b (Suc j)) [1..<Suc (length a)] m)"
  proof (rule fold_upt_invariant[where P = "\<lambda>k. filled a b (Suc j) k"])
    show "filled a b (Suc j) 1 m" by (rule assms(1))
  next
    fix k m' assume "1 \<le> k" "k < Suc (length a)" "filled a b (Suc j) k m'"
    then obtain i where "k = Suc i" "i < length a" by (cases k) auto
    with \<open>filled a b (Suc j) k m'\<close> show "filled a b (Suc j) (Suc k) (fillCell a b (Suc j) k m')"
      using fillCell_correct[of a b j i m'] assms(2) by simp
  qed simp
  then have "filled a b (Suc (Suc j)) 1 (fold (fillCell a b (Suc j)) [1..<Suc (length a)] m)"
    by (rule filled_row_done)
  then show ?thesis by (simp only: fillRow_def)
qed

lemma fill_rows_correct:
  assumes "filled a b 1 1 m"
  shows "filled a b (Suc (length b)) 1 (fold (fillRow a b) [1..<Suc (length b)] m)"
proof (rule fold_upt_invariant[where P = "\<lambda>k. filled a b k 1"])
  show "filled a b 1 1 m" by (rule assms)
next
  fix k m' assume "1 \<le> k" "k < Suc (length b)" "filled a b k 1 m'"
  then obtain j where "k = Suc j" "j < length b" by (cases k) auto
  with \<open>filled a b k 1 m'\<close> show "filled a b (Suc k) 1 (fillRow a b k m')"
    using fillRow_correct[of a b j m'] by simp
qed simp

lemma calculateLevenshteinDistance_edit_distance:
  "calculateLevenshteinDistance a b = edit_distance a b"
proof -
  let ?m0 = "replicate (length b + 1) (replicate (length a + 1) (0::nat))"
  let ?m1 = "fillRow0 ?m0 (length a)"
  let ?m2 = "fillCol0 ?m1 (length b)"
  let ?m3 = "fold (fillRow a b) [1..<Suc (length b)] ?m2"
  have 1: "dims (length a) (length b) ?m1 \<and> (\<forall>c < Suc (length a). ?m1 ! 0 ! c = c)"
    by (rule fillRow0_correct) (rule dims_replicate)
  have 2: "dims (length a) (length b) ?m2 \<and> (\<forall>c < Suc (length a). ?m2 ! 0 ! c = c)
           \<and> (\<forall>r < Suc (length b). ?m2 ! r ! 0 = r)"
    using 1 by (intro fillCol0_correct) auto
  have "filled a b 1 1 ?m2" using 2 by (intro filled_init) auto
  then have "filled a b (Suc (length b)) 1 ?m3" by (rule fill_rows_correct)
  then have "?m3 ! length b ! length a = prefix_distance a b (length a) (length b)"
    by (simp add: filled_def)
  then show ?thesis by (simp add: calculateLevenshteinDistance_def prefix_distance_def Let_def)
qed

subsection \<open>The recurrence is the least number of edits\<close>

lemma ed_insert: "edit_distance xs (y # ys) \<le> edit_distance xs ys + 1"
  by (cases xs) simp_all

lemma ed_delete: "edit_distance (x # xs) ys \<le> edit_distance xs ys + 1"
  by (cases ys) (simp_all add: ed_Nil2)

lemma ed_substitute: "edit_distance (x # xs) (y # ys) \<le> edit_distance xs ys + 1"
proof -
  have "edit_distance (x # xs) (y # ys) \<le> edit_distance xs ys + (if x = y then 0 else 1)"
    by simp
  also have "\<dots> \<le> edit_distance xs ys + 1" by simp
  finally show ?thesis .
qed

lemma ed_keep: "edit_distance (x # xs) (x # ys) \<le> edit_distance xs ys"
  by simp

lemma edit_distance_lower_bound:
  "apply_edits es xs = Some ys \<Longrightarrow> edit_distance xs ys \<le> edit_cost es"
proof (induction es xs arbitrary: ys rule: apply_edits.induct)
  case (1 xs)
  then show ?case by (simp split: if_splits)
next
  case (2 y es xs)
  then obtain zs where zs: "apply_edits es xs = Some zs" "ys = y # zs" by auto
  with 2 have "edit_distance xs zs \<le> edit_cost es" by simp
  with ed_insert[of xs y zs] zs show ?case by (simp add: edit_cost_def)
next
  case (3 es x xs)
  then obtain zs where zs: "apply_edits es xs = Some zs" "ys = x # zs" by auto
  with 3 have "edit_distance xs zs \<le> edit_cost es" by simp
  with ed_keep[of x xs zs] zs show ?case by (simp add: edit_cost_def)
next
  case (4 y es x xs)
  then obtain zs where zs: "apply_edits es xs = Some zs" "ys = y # zs" by auto
  with 4 have "edit_distance xs zs \<le> edit_cost es" by simp
  with ed_substitute[of x xs y zs] zs show ?case by (simp add: edit_cost_def)
next
  case (5 es x xs)
  then have "edit_distance xs ys \<le> edit_cost es" by simp
  with ed_delete[of x xs ys] show ?case by (simp add: edit_cost_def)
qed simp_all

lemma apply_inserts: "apply_edits (map Insert ys) [] = Some ys"
  by (induction ys) simp_all

lemma apply_deletes: "apply_edits (replicate (length xs) Delete) xs = Some []"
  by (induction xs) simp_all

lemma edit_cost_inserts: "edit_cost (map Insert ys) = length ys"
  by (induction ys) (simp_all add: edit_cost_def)

lemma edit_cost_deletes: "edit_cost (replicate n Delete) = n"
  by (induction n) (simp_all add: edit_cost_def)

lemma min3_cases:
  fixes a b c :: nat
  shows "min (min a b) c = a \<or> min (min a b) c = b \<or> min (min a b) c = c"
  by (auto simp: min_def)

lemma edit_distance_attained:
  "\<exists>es. apply_edits es xs = Some ys \<and> edit_cost es = edit_distance xs ys"
proof (induction xs ys rule: edit_distance.induct)
  case (1 ys)
  have "apply_edits (map Insert ys) [] = Some ys \<and> edit_cost (map Insert ys) = edit_distance [] ys"
    by (simp add: apply_inserts edit_cost_inserts)
  then show ?case by blast
next
  case (2 x xs)
  have "apply_edits (replicate (length (x # xs)) Delete) (x # xs) = Some []
      \<and> edit_cost (replicate (length (x # xs)) Delete) = edit_distance (x # xs) []"
    using apply_deletes[of "x # xs"] edit_cost_deletes[of "length (x # xs)"]
    by (simp del: replicate_Suc length_Cons list.size)
  then show ?case by blast
next
  case (3 x xs y ys)
  from 3 obtain e1 where e1: "apply_edits e1 xs = Some (y # ys)" "edit_cost e1 = edit_distance xs (y # ys)"
    by blast
  from 3 obtain e2 where e2: "apply_edits e2 (x # xs) = Some ys" "edit_cost e2 = edit_distance (x # xs) ys"
    by blast
  from 3 obtain e3 where e3: "apply_edits e3 xs = Some ys" "edit_cost e3 = edit_distance xs ys"
    by blast
  let ?d = "edit_distance (x # xs) (y # ys)"
  consider (del) "?d = edit_distance xs (y # ys) + 1"
    | (ins) "?d = edit_distance (x # xs) ys + 1"
    | (sub) "?d = edit_distance xs ys + (if x = y then 0 else 1)"
    using min3_cases[of "edit_distance xs (y # ys) + 1" "edit_distance (x # xs) ys + 1"
        "edit_distance xs ys + (if x = y then 0 else 1)"]
    by (simp only: edit_distance.simps) blast
  then show ?case
  proof cases
    case del
    have "apply_edits (Delete # e1) (x # xs) = Some (y # ys) \<and> edit_cost (Delete # e1) = ?d"
      using e1 del by (simp add: edit_cost_def)
    then show ?thesis by blast
  next
    case ins
    have "apply_edits (Insert y # e2) (x # xs) = Some (y # ys) \<and> edit_cost (Insert y # e2) = ?d"
      using e2 ins by (simp add: edit_cost_def)
    then show ?thesis by blast
  next
    case sub
    show ?thesis
    proof (cases "x = y")
      case True
      have "apply_edits (Keep # e3) (x # xs) = Some (y # ys) \<and> edit_cost (Keep # e3) = ?d"
        using e3 sub True by (simp add: edit_cost_def)
      then show ?thesis by blast
    next
      case False
      have "apply_edits (Substitute y # e3) (x # xs) = Some (y # ys) \<and> edit_cost (Substitute y # e3) = ?d"
        using e3 sub False by (simp add: edit_cost_def)
      then show ?thesis by blast
    qed
  qed
qed

text \<open>
  Claim C9. \<open>calculateLevenshteinDistance\<close> is the edit distance with unit costs for
  insertion, deletion and substitution: on every pair of strings it equals the reference
  recurrence, which is the least number of such edits that turn the first string into
  the second; the distance of a string to itself is 0; "bank" is at distance 1 from
  "banc" and from "bunk".
\<close>

theorem calculateLevenshteinDistance_correct:
  "(\<forall>a b :: string. calculateLevenshteinDistance a b = edit_distance a b)
   \<and> (\<forall>(a :: string) b es. apply_edits es a = Some b \<longrightarrow> calculateLevenshteinDistance a b \<le> edit_cost es)
   \<and> (\<forall>a b :: string. \<exists>es. apply_edits es a = Some b \<and> edit_cost es = calculateLevenshteinDistance a b)
   \<and> (\<forall>s :: string. calculateLevenshteinDistance s s = 0)
   \<and> calculateLevenshteinDistance ''bank'' ''banc'' = 1
   \<and> calculateLevenshteinDistance ''bank'' ''bunk'' = 1"
proof (intro conjI allI impI)
  fix a b :: string and es
  show "calculateLevenshteinDistance a b = edit_distance a b"
    by (rule calculateLevenshteinDistance_edit_distance)
  show "calculateLevenshteinDistance a b \<le> edit_cost es" if "apply_edits es a = Some b"
    using that by (simp add: calculateLevenshteinDistance_edit_distance edit_distance_lower_bound)
  show "\<exists>es. apply_edits es a = Some b \<and> edit_cost es = calculateLevenshteinDistance a b"
    by (simp add: calculateLevenshteinDistance_edit_distance edit_distance_attained)
  show "calculateLevenshteinDistance a a = 0"
    by (simp add: calculateLevenshteinDistance_edit_distance ed_refl)
  show "calculateLevenshteinDistance ''bank'' ''banc'' = 1"
    by (simp add: calculateLevenshteinDistance_edit_distance)
  show "calculateLevenshteinDistance ''bank'' ''bunk'' = 1"
    by (simp add: calculateLevenshteinDistance_edit_distance)
qed

theorem calculateLevenshteinDistance_correct_witness:
  "apply_edits [Substitute CHR ''s'', Keep, Keep, Keep, Substitute CHR ''i'', Keep, Insert CHR ''g'']
     ''kitten'' = Some ''sitting''
   \<and> edit_cost [Substitute CHR ''s'', Keep, Keep, Keep, Substitute CHR ''i'', Keep, Insert CHR ''g''] = 3
   \<and> calculateLevenshteinDistance ''kitten'' ''sitting'' = 3
   \<and> calculateLevenshteinDistance ''invoice'' ''invoice'' = 0"
proof -
  let ?es = "[Substitute CHR ''s'', Keep, Keep, Keep, Substitute CHR ''i'', Keep, Insert CHR ''g'']"
  have a: "apply_edits ?es ''kitten'' = Some ''sitting''" by simp
  have c: "edit_cost ?es = 3" by (simp add: edit_cost_def)
  have "calculateLevenshteinDistance ''kitten'' ''sitting'' \<le> edit_cost ?es"
    using calculateLevenshteinDistance_correct a by blast
  moreover have "3 \<le> calculateLevenshteinDistance ''kitten'' ''sitting''" by code_simp
  moreover have "calculateLevenshteinDistance ''invoice'' ''invoice'' = 0"
    using calculateLevenshteinDistance_correct by blast
  ultimately show ?thesis using a c by simp
qed

section \<open>The response cache is bounded and evicts oldest first\<close>

lemma ready_brain_eq:
  "ready_brain =
     \<lparr>isLoading = False, isReady = True, llamaCpp = Some 1, wasmConfig = Some wllama_assets,
      model = Some 2, responseCache = [], maxCacheSize = 50, ragReady = True\<rparr>"
  by (simp add: ready_brain_def initialize_def working_host_def SmolLMBrain_def Let_def
      loadLlamaCppWasm_def loadModel_def initializeRAG_def)

lemma update_absent_append:
  "k \<notin> fst ` set al \<Longrightarrow> AList.update k v al = al @ [(k, v)]"
  by (induction al) auto

lemma length_update_le: "length (AList.update k v al) \<le> Suc (length al)"
  by (induction al) auto

lemma delete_first_key:
  "distinct (map fst ((k, v) # rest)) \<Longrightarrow> AList.delete k ((k, v) # rest) = rest"
  by (simp add: AList.delete_eq) (metis AList.delete_eq AList.delete_id)

lemma cacheResponse_maxCacheSize [simp]: "maxCacheSize (cacheResponse k v s) = maxCacheSize s"
  by (simp add: cacheResponse_def Let_def)

lemma cacheResponse_at_capacity:
  assumes "distinct (map fst (responseCache s))" "length (responseCache s) \<ge> maxCacheSize s"
    "1 \<le> maxCacheSize s"
  shows "responseCache (cacheResponse k v s) = AList.update k v (tl (responseCache s))"
proof (cases "responseCache s")
  case Nil
  with assms show ?thesis by simp
next
  case (Cons p rest)
  obtain k0 v0 where p: "p = (k0, v0)" by (cases p)
  have "AList.delete k0 ((k0, v0) # rest) = rest"
    using assms(1) Cons p by (intro delete_first_key) simp
  then show ?thesis using assms(2) Cons p by (simp add: cacheResponse_def Let_def)
qed

lemma cacheResponse_below_capacity:
  assumes "length (responseCache s) < maxCacheSize s"
  shows "responseCache (cacheResponse k v s) = AList.update k v (responseCache s)"
  using assms by (simp add: cacheResponse_def Let_def)

lemma cacheResponse_cache_ok:
  assumes "cache_ok s"
  shows "cache_ok (cacheResponse k v s)"
proof (cases "length (responseCache s) < maxCacheSize s")
  case True
  then have eq: "responseCache (cacheResponse k v s) = AList.update k v (responseCache s)"
    by (rule cacheResponse_below_capacity)
  have "length (AList.update k v (responseCache s)) \<le> Suc (length (responseCache s))"
    by (rule length_update_le)
  with True have "length (AList.update k v (responseCache s)) \<le> maxCacheSize s" by simp
  then show ?thesis using assms by (simp add: cache_ok_def eq distinct_update)
next
  case False
  with assms have full: "length (responseCache s) \<ge> maxCacheSize s" "1 \<le> maxCacheSize s"
    and d: "distinct (map fst (responseCache s))" by (auto simp: cache_ok_def)
  have eq: "responseCache (cacheResponse k v s) = AList.update k v (tl (responseCache s))"
    using d full by (rule cacheResponse_at_capacity)
  have ne: "responseCache s \<noteq> []" using full by auto
  have "length (AList.update k v (tl (responseCache s))) \<le> Suc (length (tl (responseCache s)))"
    by (rule length_update_le)
  also have "\<dots> = length (responseCache s)" using ne by simp
  finally have len: "length (AList.update k v (tl (responseCache s))) \<le> maxCacheSize s"
    using assms by (simp add: cache_ok_def)
  have "distinct (map fst (tl (responseCache s)))" using d by (simp add: map_tl distinct_tl)
  then show ?thesis using len full by (simp add: cache_ok_def eq distinct_update)
qed

lemma fold_cacheResponse_cache_ok:
  "cache_ok s \<Longrightarrow> cache_ok (fold (\<lambda>(k, v). cacheResponse k v) ops s)"
  by (induction ops arbitrary: s) (auto simp: cacheResponse_cache_ok)

lemma fold_cacheResponse_maxCacheSize [simp]:
  "maxCacheSize (fold (\<lambda>(k, v). cacheResponse k v) ops s) = maxCacheSize s"
  by (induction ops arbitrary: s) auto

lemma fold_cacheResponse_fresh:
  assumes "responseCache s = []" "distinct (map fst ops)" "length ops \<le> maxCacheSize s"
  shows "responseCache (fold (\<lambda>(k, v). cacheResponse k v) ops s) = ops"
  using assms(2,3)
proof (induction ops rule: rev_induct)
  case Nil
  then show ?case using assms(1) by simp
next
  case (snoc p ops)
  obtain k v where p: "p = (k, v)" by (cases p)
  let ?s = "fold (\<lambda>(k, v). cacheResponse k v) ops s"
  have c: "responseCache ?s = ops" using snoc by simp
  have "length (responseCache ?s) < maxCacheSize ?s" using snoc.prems c by simp
  then have "responseCache (cacheResponse k v ?s) = AList.update k v ops"
    using c by (simp add: cacheResponse_below_capacity)
  moreover have "k \<notin> fst ` set ops" using snoc.prems(1) p by auto
  ultimately show ?case using p by (simp add: update_absent_append)
qed

lemma fold_cacheResponse_overflow:
  assumes "responseCache s = []" "distinct (map fst ops)" "length ops = maxCacheSize s + 1"
    "1 \<le> maxCacheSize s"
  shows "responseCache (fold (\<lambda>(k, v). cacheResponse k v) ops s) = tl ops"
proof -
  from assms(3) obtain p ops' where ops: "ops = ops' @ [p]"
    by (cases ops rule: rev_cases) auto
  obtain k v where p: "p = (k, v)" by (cases p)
  let ?s = "fold (\<lambda>(k, v). cacheResponse k v) ops' s"
  have d': "distinct (map fst ops')" and len': "length ops' = maxCacheSize s"
    and fresh: "k \<notin> fst ` set ops'"
    using assms(2,3) ops p by auto
  have c: "responseCache ?s = ops'" using assms(1) d' len' by (intro fold_cacheResponse_fresh) auto
  have ne: "ops' \<noteq> []" using len' assms(4) by auto
  have "responseCache (cacheResponse k v ?s) = AList.update k v (tl (responseCache ?s))"
    using d' len' assms(4) c by (intro cacheResponse_at_capacity) auto
  also have "\<dots> = AList.update k v (tl ops')" by (simp add: c)
  also have "\<dots> = tl ops' @ [(k, v)]"
  proof (rule update_absent_append)
    show "k \<notin> fst ` set (tl ops')" using fresh ne by (auto dest: list.set_sel(2))
  qed
  also have "\<dots> = tl ops" using ops p ne by simp
  finally show ?thesis using ops p by simp
qed

text \<open>
  Claim C2. The cache never holds more than the configured maximum of 50 entries: a new
  brain has an empty cache and the maximum 50, and any sequence of \<open>cacheResponse\<close> calls
  keeps the size within the maximum. An insertion at capacity removes exactly the entry
  inserted first and keeps all others in order. After \<open>maxCacheSize + 1\<close> insertions with
  distinct keys into an empty cache, the cache holds exactly the last \<open>maxCacheSize\<close> of
  them, and the key inserted first is gone.
\<close>

theorem cache_bounded_fifo:
  "cache_ok SmolLMBrain \<and> maxCacheSize SmolLMBrain = 50 \<and> responseCache SmolLMBrain = []
   \<and> (\<forall>s ops. cache_ok s \<longrightarrow>
         cache_ok (fold (\<lambda>(k, v). cacheResponse k v) ops s)
         \<and> length (responseCache (fold (\<lambda>(k, v). cacheResponse k v) ops s)) \<le> maxCacheSize s)
   \<and> (\<forall>s k v. cache_ok s \<longrightarrow> length (responseCache s) = maxCacheSize s \<longrightarrow>
         responseCache (cacheResponse k v s) = AList.update k v (tl (responseCache s)))
   \<and> (\<forall>s ops. responseCache s = [] \<longrightarrow> 1 \<le> maxCacheSize s \<longrightarrow> distinct (map fst ops) \<longrightarrow>
         length ops = maxCacheSize s + 1 \<longrightarrow>
         responseCache (fold (\<lambda>(k, v). cacheResponse k v) ops s) = tl ops
         \<and> length (responseCache (fold (\<lambda>(k, v). cacheResponse k v) ops s)) = maxCacheSize s
         \<and> fst (hd ops) \<notin> fst ` set (responseCache (fold (\<lambda>(k, v). cacheResponse k v) ops s)))"
proof (intro conjI allI impI)
  show "cache_ok SmolLMBrain" "maxCacheSize SmolLMBrain = 50" "responseCache SmolLMBrain = []"
    by (simp_all add: cache_ok_def SmolLMBrain_def)
next
  fix s :: brain and ops :: "(string \<times> string) list"
  assume ok: "cache_ok s"
  then show ok': "cache_ok (fold (\<lambda>(k, v). cacheResponse k v) ops s)"
    by (rule fold_cacheResponse_cache_ok)
  then show "length (responseCache (fold (\<lambda>(k, v). cacheResponse k v) ops s)) \<le> maxCacheSize s"
    by (simp add: cache_ok_def)
next
  fix s :: brain and k v :: string
  assume "cache_ok s" "length (responseCache s) = maxCacheSize s"
  then show "responseCache (cacheResponse k v s) = AList.update k v (tl (responseCache s))"
    by (intro cacheResponse_at_capacity) (auto simp: cache_ok_def)
next
  fix s :: brain and ops :: "(string \<times> string) list"
  assume a: "responseCache s = []" "1 \<le> maxCacheSize s" "distinct (map fst ops)"
    "length ops = maxCacheSize s + 1"
  then show eq: "responseCache (fold (\<lambda>(k, v). cacheResponse k v) ops s) = tl ops"
    by (intro fold_cacheResponse_overflow) auto
  show "length (responseCache (fold (\<lambda>(k, v). cacheResponse k v) ops s)) = maxCacheSize s"
    using a(4) by (simp add: eq)
  have "ops \<noteq> []" using a(4) by auto
  then have "ops = hd ops # tl ops" by simp
  then have "distinct (fst (hd ops) # map fst (tl ops))" using a(3) by (metis list.simps(9))
  then show "fst (hd ops) \<notin> fst ` set (responseCache (fold (\<lambda>(k, v). cacheResponse k v) ops s))"
    by (simp add: eq)
qed

theorem cache_bounded_fifo_witness:
  "cache_ok full_brain \<and> length (responseCache full_brain) = maxCacheSize full_brain
   \<and> length (responseCache (fold (\<lambda>(k, v). cacheResponse k v)
         [(''new question'', ''Another answer that is long enough.''), (''question B'', ''A second answer.'')]
         full_brain)) \<le> 50
   \<and> responseCache (cacheResponse ''new question'' ''Another answer that is long enough.'' full_brain)
       = tl fifty_entries @ [(''new question'', ''Another answer that is long enough.'')]
   \<and> distinct (map fst (fifty_entries @ [(''new question'', ''Another answer that is long enough.'')]))
   \<and> length (fifty_entries @ [(''new question'', ''Another answer that is long enough.'')])
       = maxCacheSize SmolLMBrain + 1
   \<and> length (responseCache (fold (\<lambda>(k, v). cacheResponse k v)
         (fifty_entries @ [(''new question'', ''Another answer that is long enough.'')]) SmolLMBrain)) = 50
   \<and> ''question A'' \<notin> fst ` set (responseCache (fold (\<lambda>(k, v). cacheResponse k v)
         (fifty_entries @ [(''new question'', ''Another answer that is long enough.'')]) SmolLMBrain))"
proof -
  let ?new = "(''new question'', ''Another answer that is long enough.'')"
  let ?ops = "fifty_entries @ [?new]"
  have d: "distinct (map fst ?ops)" by code_simp
  then have fifty: "distinct (map fst fifty_entries)" by simp
  have fifty_len: "length fifty_entries = 50" by code_simp
  have len: "length ?ops = maxCacheSize SmolLMBrain + 1"
    by (simp add: fifty_len SmolLMBrain_def)
  have first: "fst (hd ?ops) = ''question A''" by code_simp
  have fresh: "''new question'' \<notin> fst ` set (tl fifty_entries)"
    by code_simp
  have ok: "cache_ok full_brain"
    by (simp add: cache_ok_def full_brain_def ready_brain_eq fifty fifty_len)
  have full: "length (responseCache full_brain) = maxCacheSize full_brain"
    by (simp add: full_brain_def ready_brain_eq fifty_len)
  have cache: "responseCache full_brain = fifty_entries" by (simp add: full_brain_def)
  have evict: "responseCache (cacheResponse ''new question'' ''Another answer that is long enough.'' full_brain)
      = AList.update ''new question'' ''Another answer that is long enough.'' (tl fifty_entries)"
    using cache_bounded_fifo ok full cache by simp
  have bound: "length (responseCache (fold (\<lambda>(k, v). cacheResponse k v)
         [(''new question'', ''Another answer that is long enough.''), (''question B'', ''A second answer.'')]
         full_brain)) \<le> maxCacheSize full_brain"
    using cache_bounded_fifo ok by blast
  have max: "maxCacheSize full_brain = 50" by (simp add: full_brain_def ready_brain_eq)
  have empty: "responseCache SmolLMBrain = []" "1 \<le> maxCacheSize SmolLMBrain"
    by (simp_all add: SmolLMBrain_def)
  have over: "length (responseCache (fold (\<lambda>(k, v). cacheResponse k v) ?ops SmolLMBrain)) = maxCacheSize SmolLMBrain
     \<and> fst (hd ?ops) \<notin> fst ` set (responseCache (fold (\<lambda>(k, v). cacheResponse k v) ?ops SmolLMBrain))"
    using cache_bounded_fifo empty d len by blast
  show ?thesis
    using ok full evict d len over first fresh bound max
    by (simp add: update_absent_append SmolLMBrain_def)
qed

section \<open>The response pipeline\<close>

lemma answers_nonempty:
  "banking_answer \<noteq> []" "invoicing_answer \<noteq> []" "expenses_answer \<noteq> []"
  "payroll_answer \<noteq> []" "reports_answer \<noteq> []" "tax_answer \<noteq> []"
  "inventory_answer \<noteq> []" "troubleshooting_answer \<noteq> []" "default_answer \<noteq> []"
  unfolding banking_answer_def invoicing_answer_def expenses_answer_def
      payroll_answer_def reports_answer_def tax_answer_def inventory_answer_def
      troubleshooting_answer_def default_answer_def
  by simp_all

lemma if_nonempty: "a \<noteq> [] \<Longrightarrow> b \<noteq> [] \<Longrightarrow> (if c then a else b) \<noteq> []"
  by simp

lemma getQuickBooksGuidance_nonempty: "getQuickBooksGuidance userMessage \<noteq> []"
  unfolding getQuickBooksGuidance_def Let_def
  by (intro if_nonempty answers_nonempty)

lemma cache_hit_nonempty: "cache_hit cache key = Some t \<Longrightarrow> t \<noteq> []"
  by (auto simp: cache_hit_def split: option.splits if_splits)

lemma inferenceAttempt_accepted:
  "inferenceAttempt env s userMessage = (Inr (Some text), effects) \<Longrightarrow>
     length text > 15 \<and> \<not> isGenericResponse text"
  by (auto simp: inferenceAttempt_def Let_def split: if_splits sum.splits)

text \<open>The three ways a ready brain answers.\<close>

lemma generateResponse_cases:
  assumes "isReady s"
  shows "(\<exists>t. cache_hit (responseCache s) (normalizeMessage userMessage) = Some t \<and>
            generateResponse env s userMessage =
              (\<lparr>success = True, message = t, source = Some ''cache''\<rparr>, s, []))
       \<or> (\<exists>text effects. cache_hit (responseCache s) (normalizeMessage userMessage) = None \<and>
            inferenceAttempt env s userMessage = (Inr (Some text), effects) \<and>
            generateResponse env s userMessage =
              (\<lparr>success = True, message = text, source = Some ''smollm2-local''\<rparr>,
               cacheResponse (normalizeMessage userMessage) text s, effects))
       \<or> (cache_hit (responseCache s) (normalizeMessage userMessage) = None \<and>
            (\<forall>text. fst (inferenceAttempt env s userMessage) \<noteq> Inr (Some text)) \<and>
            generateResponse env s userMessage =
              (rulesResponse userMessage, s, snd (inferenceAttempt env s userMessage)))"
proof (cases "cache_hit (responseCache s) (normalizeMessage userMessage)")
  case (Some t)
  then show ?thesis using assms by (simp add: generateResponse_def Let_def)
next
  case None
  obtain r effects where ia: "inferenceAttempt env s userMessage = (r, effects)"
    by (cases "inferenceAttempt env s userMessage")
  show ?thesis
  proof (cases r)
    case (Inl e)
    then show ?thesis using assms None ia by (simp add: generateResponse_def Let_def)
  next
    case (Inr res)
    then show ?thesis using assms None ia
      by (cases res) (simp_all add: generateResponse_def Let_def)
  qed
qed

text \<open>A call changes nothing but the cache, and keeps the cache within its bound.\<close>

lemma generateResponse_cache_ok:
  assumes "cache_ok s"
  shows "cache_ok (fst (snd (generateResponse env s userMessage)))"
proof (cases "isReady s")
  case True
  from generateResponse_cases[OF True, of userMessage env] assms show ?thesis
    by (auto simp: cacheResponse_cache_ok)
next
  case False
  with assms show ?thesis by (simp add: generateResponse_def)
qed

lemma generateResponse_message_nonempty:
  assumes "isReady s"
  shows "message (fst (generateResponse env s userMessage)) \<noteq> []"
  using generateResponse_cases[OF assms, of userMessage env]
  by (auto simp: rulesResponse_def getQuickBooksGuidance_nonempty
      dest: cache_hit_nonempty inferenceAttempt_accepted)

text \<open>
  Claim C1. Once initialization has completed (\<open>isReady\<close>), \<open>generateResponse\<close> answers
  every non-empty message with a non-empty text and \<open>success\<close>, from the cache, the model
  or the rule table. The model covers the exceptions the code can meet: whatever
  retrieval and \<open>createCompletion\<close> do, including throwing, the call returns a response.
\<close>

theorem generateResponse_total:
  assumes "isReady s" and "userMessage \<noteq> []"
  shows "message (fst (generateResponse env s userMessage)) \<noteq> []
       \<and> success (fst (generateResponse env s userMessage))
       \<and> (source (fst (generateResponse env s userMessage)) = Some ''cache''
          \<or> source (fst (generateResponse env s userMessage)) = Some ''smollm2-local''
          \<or> source (fst (generateResponse env s userMessage)) = Some ''enhanced-rules'')"
  using generateResponse_cases[OF assms(1), of userMessage env]
    generateResponse_message_nonempty[OF assms(1), of env userMessage]
  by (auto simp: rulesResponse_def)

theorem generateResponse_total_witness:
  "isReady ready_brain \<and> ''How do I set up payroll?'' \<noteq> []
   \<and> message (fst (generateResponse throwing_env ready_brain ''How do I set up payroll?'')) \<noteq> []
   \<and> fst (generateResponse throwing_env ready_brain ''How do I set up payroll?'')
       = rulesResponse ''How do I set up payroll?''"
proof -
  let ?m = "''How do I set up payroll?''"
  have r: "isReady ready_brain" by (simp add: ready_brain_eq)
  have "fst (generateResponse throwing_env ready_brain ''How do I set up payroll?'')
       = rulesResponse ''How do I set up payroll?''"
    by (simp add: generateResponse_def ready_brain_eq Let_def cache_hit_def inferenceAttempt_def
        throwing_env_def)
  with r generateResponse_total[OF r, of ?m throwing_env]
  show ?thesis by simp
qed

text \<open>
  Claim C7. A model output whose cleaned text has at most 15 characters is rejected
  whatever it says: the pipeline answers from the rule table and caches nothing.
\<close>

theorem short_output_rejected:
  assumes "isReady s"
    and "cache_hit (responseCache s) (normalizeMessage userMessage) = None"
    and "\<forall>prompt completion. createCompletion env prompt = Inr completion \<longrightarrow>
           length (cleanResponse completion) \<le> 15"
  shows "fst (generateResponse env s userMessage) = rulesResponse userMessage
       \<and> fst (snd (generateResponse env s userMessage)) = s"
proof -
  have "fst (inferenceAttempt env s userMessage) \<noteq> Inr (Some t)" for t
  proof
    assume "fst (inferenceAttempt env s userMessage) = Inr (Some t)"
    then obtain effects where "inferenceAttempt env s userMessage = (Inr (Some t), effects)"
      by (cases "inferenceAttempt env s userMessage") simp
    then obtain p c where
      "createCompletion env p = Inr c" "length (cleanResponse c) > 15"
      by (auto simp: inferenceAttempt_def Let_def split: if_splits sum.splits)
    with assms(3) show False by fastforce
  qed
  then have no: "\<forall>t. fst (inferenceAttempt env s userMessage) \<noteq> Inr (Some t)" by blast
  from generateResponse_cases[OF assms(1), of userMessage env]
  have "generateResponse env s userMessage =
          (rulesResponse userMessage, s, snd (inferenceAttempt env s userMessage))"
    using assms(2) no by (elim disjE exE conjE) simp_all
  then show ?thesis by simp
qed

theorem short_output_rejected_witness:
  "isReady ready_brain
   \<and> cache_hit (responseCache ready_brain) (normalizeMessage ''Can you do it?'') = None
   \<and> createCompletion terse_env = (\<lambda>prompt. Inr ''<|im_start|>assistant Yes, of course.<|im_end|>'')
   \<and> cleanResponse ''<|im_start|>assistant Yes, of course.<|im_end|>'' = ''Yes, of course.''
   \<and> fst (generateResponse terse_env ready_brain ''Can you do it?'') = rulesResponse ''Can you do it?''
   \<and> fst (snd (generateResponse terse_env ready_brain ''Can you do it?'')) = ready_brain
   \<and> snd (snd (generateResponse terse_env ready_brain ''Can you do it?''))
       = [Retrieval ''Can you do it?'', Inference (buildPrompt [] ''Can you do it?'')]"
proof -
  let ?m = "''Can you do it?''"
  have r: "isReady ready_brain" by (simp add: ready_brain_eq)
  have miss: "cache_hit (responseCache ready_brain) (normalizeMessage ?m) = None"
    by (simp add: ready_brain_eq cache_hit_def)
  have env: "createCompletion terse_env = (\<lambda>prompt. Inr ''<|im_start|>assistant Yes, of course.<|im_end|>'')"
    by (simp add: terse_env_def)
  have clean: "cleanResponse ''<|im_start|>assistant Yes, of course.<|im_end|>'' = ''Yes, of course.''"
    by code_simp
  have short: "\<forall>prompt completion. createCompletion terse_env prompt = Inr completion \<longrightarrow>
      length (cleanResponse completion) \<le> 15"
    by (auto simp: env clean)
  have effects: "snd (snd (generateResponse terse_env ready_brain ?m))
      = [Retrieval ?m, Inference (buildPrompt [] ?m)]"
    by code_simp
  show ?thesis
    using short_output_rejected[OF r miss short] r miss env clean effects by simp
qed


subsection \<open>How long a cached answer stays\<close>



lemma values_update: "snd ` set (AList.update k v cache) \<subseteq> insert v (snd ` set cache)"
  by (induction cache) auto

lemma cacheResponse_fields [simp]:
  "isReady (cacheResponse k v s) = isReady s"
  "model (cacheResponse k v s) = model s"
  "llamaCpp (cacheResponse k v s) = llamaCpp s"
  "ragReady (cacheResponse k v s) = ragReady s"
  by (simp_all add: cacheResponse_def Let_def)

lemma cacheResponse_cases:
  assumes "cache_ok s"
  shows "(length (responseCache s) < maxCacheSize s \<and>
            responseCache (cacheResponse k v s) = AList.update k v (responseCache s))
       \<or> (length (responseCache s) = maxCacheSize s \<and> responseCache s \<noteq> [] \<and>
            responseCache (cacheResponse k v s) = AList.update k v (tl (responseCache s)))"
proof (cases "length (responseCache s) < maxCacheSize s")
  case True
  then show ?thesis by (simp add: cacheResponse_below_capacity)
next
  case False
  with assms have full: "length (responseCache s) = maxCacheSize s" "1 \<le> maxCacheSize s"
    by (auto simp: cache_ok_def)
  then have "responseCache s \<noteq> []" by auto
  moreover have "responseCache (cacheResponse k v s) = AList.update k v (tl (responseCache s))"
    using assms full by (intro cacheResponse_at_capacity) (auto simp: cache_ok_def)
  ultimately show ?thesis using full by simp
qed

lemma cacheResponse_cache_wf:
  assumes "cache_wf s" "v \<noteq> []"
  shows "cache_wf (cacheResponse k v s)"
proof -
  have ok: "cache_ok s" and vals: "[] \<notin> snd ` set (responseCache s)"
    using assms(1) by (auto simp: cache_wf_def)
  have "[] \<notin> snd ` set (tl (responseCache s))"
    using vals by (cases "responseCache s") auto
  then have "[] \<notin> insert v (snd ` set (tl (responseCache s)))"
    and "[] \<notin> insert v (snd ` set (responseCache s))"
    using vals assms(2) by auto
  then have "[] \<notin> snd ` set (AList.update k v (tl (responseCache s)))"
    and "[] \<notin> snd ` set (AList.update k v (responseCache s))"
    using values_update[of k v "responseCache s"] values_update[of k v "tl (responseCache s)"]
    by blast+
  then have "[] \<notin> snd ` set (responseCache (cacheResponse k v s))"
    using cacheResponse_cases[OF ok, of k v] by (elim disjE conjE) simp_all
  then show ?thesis using cacheResponse_cache_ok[OF ok] by (simp add: cache_wf_def)
qed



text \<open>What one call does to the state.\<close>

lemma generateResponse_state:
  assumes "isReady s"
  shows "(source (fst (generateResponse env s userMessage)) \<noteq> Some ''smollm2-local'' \<and>
            fst (snd (generateResponse env s userMessage)) = s)
       \<or> (source (fst (generateResponse env s userMessage)) = Some ''smollm2-local'' \<and>
            cache_hit (responseCache s) (normalizeMessage userMessage) = None \<and>
            (\<exists>t. t \<noteq> [] \<and> fst (snd (generateResponse env s userMessage))
                      = cacheResponse (normalizeMessage userMessage) t s))"
  using generateResponse_cases[OF assms, of userMessage env]
proof (elim disjE exE conjE)
  fix t assume "generateResponse env s userMessage =
      (\<lparr>success = True, message = t, source = Some ''cache''\<rparr>, s, [])"
  then show ?thesis by simp
next
  fix t effects
  assume miss: "cache_hit (responseCache s) (normalizeMessage userMessage) = None"
    and acc: "inferenceAttempt env s userMessage = (Inr (Some t), effects)"
    and g: "generateResponse env s userMessage =
      (\<lparr>success = True, message = t, source = Some ''smollm2-local''\<rparr>,
       cacheResponse (normalizeMessage userMessage) t s, effects)"
  have "t \<noteq> []" using inferenceAttempt_accepted[OF acc] by auto
  with miss g show ?thesis by auto
next
  assume "generateResponse env s userMessage =
      (rulesResponse userMessage, s, snd (inferenceAttempt env s userMessage))"
  then show ?thesis by (simp add: rulesResponse_def)
qed

lemma generateResponse_cache_wf:
  assumes "cache_wf s"
  shows "cache_wf (fst (snd (generateResponse env s userMessage)))"
proof (cases "isReady s")
  case True
  from generateResponse_state[OF True, of env userMessage] assms show ?thesis
    by (auto simp: cacheResponse_cache_wf)
next
  case False
  with assms show ?thesis by (simp add: generateResponse_def)
qed






lemma run_calls_cache_wf: "cache_wf s \<Longrightarrow> cache_wf (run_calls calls s)"
proof (induction calls arbitrary: s)
  case Nil
  then show ?case by simp
next
  case (Cons call calls)
  obtain env userMessage where "call = (env, userMessage)" by (cases call)
  then show ?case using Cons.IH[OF generateResponse_cache_wf[OF Cons.prems]] by simp
qed

lemma SmolLMBrain_cache_wf: "cache_wf SmolLMBrain"
  by (simp add: cache_wf_def cache_ok_def SmolLMBrain_def)


lemma initialize_cache_wf: "cache_wf (snd (initialize host SmolLMBrain))"
proof -
  have "responseCache (snd (initialize host SmolLMBrain)) = []
      \<and> maxCacheSize (snd (initialize host SmolLMBrain)) = 50"
    by (simp add: initialize_def SmolLMBrain_def Let_def loadLlamaCppWasm_def loadModel_def
        initializeRAG_def split: sum.splits option.splits)
  then show ?thesis by (simp add: cache_wf_def cache_ok_def)
qed




lemma fold_cacheResponse_fields [simp]:
  "isReady (fold (\<lambda>(k, v). cacheResponse k v) ops s) = isReady s"
  "model (fold (\<lambda>(k, v). cacheResponse k v) ops s) = model s"
  "llamaCpp (fold (\<lambda>(k, v). cacheResponse k v) ops s) = llamaCpp s"
  "ragReady (fold (\<lambda>(k, v). cacheResponse k v) ops s) = ragReady s"
  by (induction ops arbitrary: s) auto




section \<open>Initialization when loading fails\<close>

lemma initialize_fresh:
  "initialize host SmolLMBrain =
     (True, (initializeRAG host (loadModel host (loadLlamaCppWasm host (SmolLMBrain\<lparr>isLoading := True\<rparr>))))
              \<lparr>isReady := True, isLoading := False\<rparr>)"
  by (simp add: initialize_def SmolLMBrain_def Let_def)

lemma initializeRAG_fields [simp]:
  "model (initializeRAG host s) = model s"
  "responseCache (initializeRAG host s) = responseCache s"
  by (simp_all add: initializeRAG_def split: sum.splits)

lemma loadModel_cache [simp]: "responseCache (loadModel host s) = responseCache s"
  by (simp add: loadModel_def split: sum.splits)

lemma loadLlamaCppWasm_cache [simp]: "responseCache (loadLlamaCppWasm host s) = responseCache s"
  by (simp add: loadLlamaCppWasm_def split: sum.splits)

lemma loadModel_after_failure:
  assumes "loading_step_fails host" "model s = None"
  shows "model (loadModel host (loadLlamaCppWasm host s)) = None"
  using assms
  by (auto simp: loading_step_fails_def loadModel_def loadLlamaCppWasm_def isl_def
      split: sum.splits)

lemma rules_only_without_model:
  assumes "isReady s" "model s = None" "responseCache s = []"
  shows "generateResponse env s userMessage = (rulesResponse userMessage, s, [])"
  using assms by (simp add: generateResponse_def Let_def cache_hit_def inferenceAttempt_def)

text \<open>
  Claim C4, as the code has it. When a loading step fails (the import of the runtime,
  the construction of the runtime object or the download of the weights), \<open>initialize\<close>
  of a new brain raises nothing and returns \<open>true\<close>; the brain is marked ready and
  \<open>getStatus\<close> reports \<open>ready\<close>. The failure shows in \<open>model\<close> being \<open>null\<close>, and every
  message is then answered from the rule table, with no call to retrieval or model.
\<close>

theorem initialize_failure_degrades_to_rules:
  assumes "loading_step_fails host"
  shows "fst (initialize host SmolLMBrain) = True
       \<and> isReady (snd (initialize host SmolLMBrain))
       \<and> \<not> isLoading (snd (initialize host SmolLMBrain))
       \<and> model (snd (initialize host SmolLMBrain)) = None
       \<and> getStatus (snd (initialize host SmolLMBrain)) = (''ready'', ''SmolLM2 ready'')
       \<and> (\<forall>env userMessage.
             generateResponse env (snd (initialize host SmolLMBrain)) userMessage
               = (rulesResponse userMessage, snd (initialize host SmolLMBrain), []))"
proof -
  let ?s = "snd (initialize host SmolLMBrain)"
  have m0: "model (SmolLMBrain\<lparr>isLoading := True\<rparr>) = None"
    by (simp add: SmolLMBrain_def)
  have none: "model ?s = None"
    using loadModel_after_failure[OF assms m0] by (simp add: initialize_fresh)
  have ready: "isReady ?s" "\<not> isLoading ?s" by (simp_all add: initialize_fresh)
  have c0: "responseCache SmolLMBrain = []" by (simp add: SmolLMBrain_def)
  have cache: "responseCache ?s = []" by (simp add: initialize_fresh c0)
  have status: "getStatus ?s = (''ready'', ''SmolLM2 ready'')"
    using ready by (simp add: getStatus_def)
  have "generateResponse env ?s userMessage = (rulesResponse userMessage, ?s, [])" for env userMessage
    using ready(1) none cache by (rule rules_only_without_model)
  with none ready status show ?thesis by (simp add: initialize_fresh)
qed

theorem initialize_failure_degrades_to_rules_witness:
  "loading_step_fails offline_host
   \<and> fst (initialize offline_host SmolLMBrain) = True
   \<and> model (snd (initialize offline_host SmolLMBrain)) = None
   \<and> getStatus (snd (initialize offline_host SmolLMBrain)) = (''ready'', ''SmolLM2 ready'')
   \<and> fst (generateResponse answering_env (snd (initialize offline_host SmolLMBrain)) ''How do I set up payroll?'')
       = \<lparr>success = True, message = payroll_answer, source = Some ''enhanced-rules''\<rparr>"
proof -
  have f: "loading_step_fails offline_host"
    by (simp add: loading_step_fails_def offline_host_def)
  have "getQuickBooksGuidance ''How do I set up payroll?'' = payroll_answer" by code_simp
  then show ?thesis
    using initialize_failure_degrades_to_rules[OF f] f by (simp add: rulesResponse_def)
qed

text \<open>
  The claim as the specification words it fails: after a failed import the status is
  \<open>ready\<close>, not an unavailable state.
\<close>

theorem failed_initialize_reports_ready:
  "loading_step_fails offline_host
   \<and> isReady (snd (initialize offline_host SmolLMBrain))
   \<and> fst (getStatus (snd (initialize offline_host SmolLMBrain))) = ''ready''"
  by (simp add: loading_step_fails_def offline_host_def initialize_fresh getStatus_def)

section \<open>Relevance of an entry without trigger keywords\<close>

lemma calculateRelevanceScore_no_triggers: "calculateRelevanceScore userKeywords [] = NaN"
  by (simp add: calculateRelevanceScore_def js_divide_def)

lemma matchLayerData_has_triggers:
  assumes "(item, score) \<in> set (matchLayerData userKeywords layerData)"
  shows "trigger_keywords item \<noteq> []"
proof
  assume "trigger_keywords item = []"
  moreover from assms have "score = calculateRelevanceScore userKeywords (trigger_keywords item)"
    and "js_greater score (3 / 10)"
    by (auto simp: matchLayerData_def)
  ultimately show False by (simp add: calculateRelevanceScore_no_triggers)
qed

text \<open>
  Claim C5, as the code has it. For every list of user keywords, the relevance score
  against an empty list of trigger keywords is the quotient \<open>0 / 0\<close>, that is \<open>NaN\<close> and not
  0. \<open>NaN\<close> is not greater than the threshold 0.3, so the search never keeps an entry
  that has no trigger keywords.
\<close>

theorem calculateRelevanceScore_empty_triggers:
  "calculateRelevanceScore userKeywords [] = NaN
   \<and> \<not> js_greater (calculateRelevanceScore userKeywords []) (3 / 10)
   \<and> (\<forall>(item, score) \<in> set (matchLayerData userKeywords layerData). trigger_keywords item \<noteq> [])"
  using matchLayerData_has_triggers
  by (auto simp: calculateRelevanceScore_no_triggers)

theorem calculateRelevanceScore_empty_triggers_witness:
  "calculateRelevanceScore [''bank'', ''feed''] [] = NaN
   \<and> map (issue \<circ> fst) (matchLayerData [''bank'', ''feed''] sample_items) = [''Bank feed does not update'']
   \<and> map (trigger_keywords \<circ> fst) (matchLayerData [''bank'', ''feed''] sample_items)
       = [[''bank'', ''feed'', ''update'']]"
proof -
  have "map (issue \<circ> fst) (matchLayerData [''bank'', ''feed''] sample_items) = [''Bank feed does not update'']"
    by code_simp
  moreover have "map (trigger_keywords \<circ> fst) (matchLayerData [''bank'', ''feed''] sample_items)
       = [[''bank'', ''feed'', ''update'']]"
    by code_simp
  ultimately show ?thesis
    using calculateRelevanceScore_empty_triggers[of "[''bank'', ''feed'']" sample_items] by simp
qed

text \<open>The claim as the specification words it fails: the score is not 0.\<close>

theorem calculateRelevanceScore_empty_triggers_not_zero:
  "calculateRelevanceScore [''bank''] [] \<noteq> Number 0"
  by (simp add: calculateRelevanceScore_def js_divide_def)

section \<open>Relevant categories\<close>

text \<open>
  As long as no keyword reads an inherited member, \<open>identifyRelevantCategories\<close>
  counts, for each declared category, the occurrences of the category in the index
  entries of the keywords, keeps the categories with a positive count, sorts them by
  descending count (equal counts in declared order) and returns the first two. When the
  entries of the index list no category twice, the count is the number of keywords
  that map to the category.
\<close>

lemma categories_distinct: "distinct categories"
  by (simp add: categories_def)

lemma map_of_known:
  "c \<in> set cs \<Longrightarrow> map_of (map (\<lambda>x. (x, g x)) cs @ extra) c = Some (g c)"
  by (induction cs) auto

lemma map_of_unknown:
  "c \<notin> set cs \<Longrightarrow> map_of (map (\<lambda>x. (x, g x)) cs @ extra) c = map_of extra c"
  by (induction cs) auto

lemma update_known:
  "distinct cs \<Longrightarrow> c \<in> set cs \<Longrightarrow>
     AList.update c v (map (\<lambda>x. (x, g x)) cs @ extra) = map (\<lambda>x. (x, (g(c := v)) x)) cs @ extra"
  by (induction cs) auto

lemma add_one_known:
  assumes "c \<in> set categories"
  shows "add_one c (scores_of f extra) = scores_of (f(c := f c + 1)) extra"
proof -
  have "map_of (scores_of f extra) c = Some (Count (f c))"
    using assms unfolding scores_of_def by (rule map_of_known)
  moreover have "AList.update c (Count (f c + 1)) (scores_of f extra)
      = map (\<lambda>x. (x, ((\<lambda>cat. Count (f cat))(c := Count (f c + 1))) x)) categories @ extra"
    unfolding scores_of_def using categories_distinct assms by (rule update_known)
  moreover have "((\<lambda>cat. Count (f cat))(c := Count (f c + 1))) = (\<lambda>cat. Count ((f(c := f c + 1)) cat))"
    by auto
  ultimately show ?thesis by (simp add: add_one_def scores_of_def)
qed

lemma add_one_unknown:
  assumes "c \<notin> set categories" "extra_ok extra"
  shows "\<exists>extra'. add_one c (scores_of f extra) = scores_of f extra' \<and> extra_ok extra'"
proof -
  have m: "map_of (scores_of f extra) c = map_of extra c"
    using assms(1) unfolding scores_of_def by (rule map_of_unknown)
  show ?thesis
  proof (cases "map_of extra c")
    case None
    show ?thesis
    proof (cases "c = ''__proto__''")
      case True
      with None m assms(2) show ?thesis by (auto simp: add_one_def)
    next
      case False
      have "add_one c (scores_of f extra) = scores_of f extra @ [(c, NotNumeric)]"
        using None m False by (simp add: add_one_def)
      then have "add_one c (scores_of f extra) = scores_of f (extra @ [(c, NotNumeric)])"
        by (simp add: scores_of_def)
      moreover have "extra_ok (extra @ [(c, NotNumeric)])"
        using assms by (auto simp: extra_ok_def)
      ultimately show ?thesis by blast
    qed
  next
    case (Some v)
    then have "(c, v) \<in> set extra" by (rule map_of_SomeD)
    with assms(2) have "v = NotNumeric" by (auto simp: extra_ok_def)
    with Some m assms(2) show ?thesis by (auto simp: add_one_def)
  qed
qed

lemma scores_of_cong:
  "(\<And>c. c \<in> set categories \<Longrightarrow> f c = g c) \<Longrightarrow> scores_of f extra = scores_of g extra"
  by (simp add: scores_of_def)

lemma add_one_scores:
  assumes "extra_ok extra"
  shows "\<exists>extra'. add_one c (scores_of f extra) = scores_of (\<lambda>x. f x + count_list [c] x) extra'
           \<and> extra_ok extra'"
proof (cases "c \<in> set categories")
  case True
  have "scores_of (f(c := f c + 1)) extra = scores_of (\<lambda>x. f x + count_list [c] x) extra"
    by (rule scores_of_cong) auto
  with add_one_known[OF True, of f extra] assms show ?thesis by auto
next
  case False
  from add_one_unknown[OF False assms, of f] obtain extra'
    where e: "add_one c (scores_of f extra) = scores_of f extra'" "extra_ok extra'" by blast
  have "scores_of f extra' = scores_of (\<lambda>x. f x + count_list [c] x) extra'"
    using False by (intro scores_of_cong) auto
  with e show ?thesis by auto
qed

lemma fold_add_one_scores:
  assumes "extra_ok extra"
  shows "\<exists>extra'. fold add_one cats (scores_of f extra) = scores_of (\<lambda>x. f x + count_list cats x) extra'
           \<and> extra_ok extra'"
  using assms
proof (induction cats arbitrary: f extra)
  case Nil
  then show ?case by auto
next
  case (Cons c cats)
  from add_one_scores[OF Cons.prems, of c f] obtain e1
    where 1: "add_one c (scores_of f extra) = scores_of (\<lambda>x. f x + count_list [c] x) e1" "extra_ok e1"
    by blast
  from Cons.IH[OF 1(2), of "\<lambda>x. f x + count_list [c] x"] obtain e2
    where 2: "fold add_one cats (scores_of (\<lambda>x. f x + count_list [c] x) e1)
        = scores_of (\<lambda>x. f x + count_list [c] x + count_list cats x) e2" "extra_ok e2"
    by blast
  have "scores_of (\<lambda>x. f x + count_list [c] x + count_list cats x) e2
      = scores_of (\<lambda>x. f x + count_list (c # cats) x) e2"
    by (rule scores_of_cong) auto
  with 1 2 show ?case by auto
qed

lemma score_keywords_scores:
  assumes "\<forall>k \<in> set kws. get_property index k \<noteq> InheritedMember" "extra_ok extra"
  shows "\<exists>extra'. score_keywords index kws (scores_of f extra)
            = Inr (scores_of (\<lambda>x. f x + entry_count index kws x) extra') \<and> extra_ok extra'"
  using assms
proof (induction kws arbitrary: f extra)
  case Nil
  then show ?case by (auto simp: entry_count_def)
next
  case (Cons k kws)
  have rest: "\<forall>k \<in> set kws. get_property index k \<noteq> InheritedMember"
    using Cons.prems(1) by simp
  show ?case
  proof (cases "map_of index k")
    case None
    then have "get_property index k = Undefined"
      using Cons.prems(1) by (auto simp: get_property_def)
    moreover have "entry_count index (k # kws) = entry_count index kws"
      using None by (auto simp: entry_count_def)
    ultimately show ?thesis
      using Cons.IH[OF rest Cons.prems(2), of f] by simp
  next
    case (Some cats)
    then have g: "get_property index k = Array cats" by (simp add: get_property_def)
    from fold_add_one_scores[OF Cons.prems(2), of cats f] obtain e1
      where 1: "fold add_one cats (scores_of f extra)
          = scores_of (\<lambda>x. f x + count_list cats x) e1" "extra_ok e1" by blast
    from Cons.IH[OF rest 1(2), of "\<lambda>x. f x + count_list cats x"] obtain e2
      where 2: "score_keywords index kws (scores_of (\<lambda>x. f x + count_list cats x) e1)
          = Inr (scores_of (\<lambda>x. f x + count_list cats x + entry_count index kws x) e2)"
        "extra_ok e2" by blast
    have "scores_of (\<lambda>x. f x + count_list cats x + entry_count index kws x) e2
        = scores_of (\<lambda>x. f x + entry_count index (k # kws) x) e2"
      using Some by (intro scores_of_cong) (simp add: entry_count_def)
    with g 1 2 show ?thesis by auto
  qed
qed

lemma filter_positive_scores:
  assumes "extra_ok extra"
  shows "filter (\<lambda>(category, score). positive score) (scores_of f extra)
           = map (\<lambda>cat. (cat, Count (f cat))) (filter (\<lambda>cat. 0 < f cat) categories)"
proof -
  have "filter (\<lambda>(category, score). positive score) extra = []"
    using assms by (auto simp: extra_ok_def filter_empty_conv)
  moreover have "filter (\<lambda>(category, score). positive score) (map (\<lambda>cat. (cat, Count (f cat))) cs)
      = map (\<lambda>cat. (cat, Count (f cat))) (filter (\<lambda>cat. 0 < f cat) cs)" for cs
    by (induction cs) auto
  ultimately show ?thesis by (simp add: scores_of_def)
qed

lemma insort_key_map_scores:
  "insort_key (\<lambda>(category, score). - int (count_of score)) (c, Count (f c)) (map (\<lambda>cat. (cat, Count (f cat))) cs)
     = map (\<lambda>cat. (cat, Count (f cat))) (insort_key (\<lambda>cat. - int (f cat)) c cs)"
  by (induction cs) auto

lemma sort_key_map_scores:
  "sort_key (\<lambda>(category, score). - int (count_of score)) (map (\<lambda>cat. (cat, Count (f cat))) cs)
     = map (\<lambda>cat. (cat, Count (f cat))) (sort_key (\<lambda>cat. - int (f cat)) cs)"
  by (induction cs) (simp_all add: insort_key_map_scores)

lemma identifyRelevantCategories_counts:
  assumes "\<forall>k \<in> set kws. get_property index k \<noteq> InheritedMember"
  shows "identifyRelevantCategories index kws =
           Inr (take 2 (sort_key (\<lambda>cat. - int (entry_count index kws cat))
                          (filter (\<lambda>cat. 0 < entry_count index kws cat) categories)))"
proof -
  have start: "map (\<lambda>cat. (cat, Count 0)) categories = scores_of (\<lambda>x. 0) []"
    by (simp add: scores_of_def)
  have "extra_ok []" by (simp add: extra_ok_def)
  from score_keywords_scores[OF assms this, of "\<lambda>x. 0"] obtain extra
    where s: "score_keywords index kws (scores_of (\<lambda>x. 0) [])
        = Inr (scores_of (entry_count index kws) extra)" "extra_ok extra"
    by auto
  show ?thesis
    unfolding identifyRelevantCategories_def start s(1)
    by (simp add: filter_positive_scores[OF s(2)] sort_key_map_scores comp_def)
qed

lemma entry_count_distinct:
  assumes "\<forall>(k, cats) \<in> set index. distinct cats"
  shows "entry_count index kws category = keyword_hits index kws category"
proof -
  have one: "count_list cats category = (if category \<in> set cats then 1 else 0)"
    if "map_of index k = Some cats" for k cats
  proof -
    from that have "(k, cats) \<in> set index" by (rule map_of_SomeD)
    with assms have "distinct cats" by auto
    then show ?thesis by (induction cats) auto
  qed
  show ?thesis
    unfolding entry_count_def keyword_hits_def
    by (induction kws) (auto simp: one split: option.splits)
qed

lemma score_keywords_inherited:
  assumes "get_property index keyword = InheritedMember"
  shows "score_keywords index (before @ keyword # after) categoryScores = Inl TypeError"
  using assms
  by (induction before arbitrary: categoryScores) (auto split: property_value.splits)

text \<open>
  Claim C8 says that \<open>identifyRelevantCategories\<close> returns the scored categories for
  every keyword list and index. The code does not on a keyword that names a member of
  \<open>Object.prototype\<close> and has no entry of its own in the index (such as \<open>constructor\<close>,
  which \<open>extractKeywords\<close> yields for a message containing that word): the test
  \<open>if (this.searchIndex.keywords[keyword])\<close> passes on the inherited member, and the loop
  over it throws a \<open>TypeError\<close>.
\<close>

theorem identifyRelevantCategories_inherited_name_throws:
  assumes "map_of index keyword = None" and "keyword \<in> set object_prototype_names"
  shows "identifyRelevantCategories index (before @ keyword # after) = Inl TypeError"
proof -
  have "get_property index keyword = InheritedMember"
    using assms by (simp add: get_property_def)
  then show ?thesis
    by (simp add: identifyRelevantCategories_def score_keywords_inherited)
qed

theorem identifyRelevantCategories_inherited_name_throws_witness:
  "map_of sample_index ''constructor'' = None
   \<and> ''constructor'' \<in> set object_prototype_names
   \<and> extractKeywords ''Which bank feed needs a constructor?''
       = [''which'', ''bank'', ''feed'', ''needs'', ''constructor'']
   \<and> identifyRelevantCategories sample_index (extractKeywords ''Which bank feed needs a constructor?'')
       = Inl TypeError
   \<and> identifyRelevantCategories sample_index (extractKeywords ''Which bank feed needs a deposit?'')
       = Inr [''banking'', ''payroll'']"
proof -
  have a: "map_of sample_index ''constructor'' = None" by code_simp
  have b: "''constructor'' \<in> set object_prototype_names" by code_simp
  have c: "extractKeywords ''Which bank feed needs a constructor?''
       = [''which'', ''bank'', ''feed'', ''needs''] @ ''constructor'' # []"
    by code_simp
  have d: "identifyRelevantCategories sample_index (extractKeywords ''Which bank feed needs a deposit?'')
       = Inr [''banking'', ''payroll'']"
    by code_simp
  show ?thesis
    using identifyRelevantCategories_inherited_name_throws[OF a b,
        of "[''which'', ''bank'', ''feed'', ''needs'']" "[]"] a b c d
    by simp
qed

section \<open>The rule table\<close>

lemma getQuickBooksGuidance_table:
  "getQuickBooksGuidance userMessage =
     first_matching_group coded_groups default_answer (toLowerCase userMessage)"
  unfolding getQuickBooksGuidance_def coded_groups_def Let_def
  by (simp only: first_matching_group.simps list_ex_Nil_iff list_ex_Cons_iff simp_thms)

text \<open>
  Claim C6, as the code has it. The rule fallback scans the lowercased message against
  the ordered keyword groups bank/connect/link, invoice/bill/customer,
  expense/receipt/cost, payroll/employee/salary, report/profit/loss/financial,
  tax/1099/deduction, inventory/product/stock and error/problem/not working/issue; the
  first group with a keyword in the message gives its canned answer, and the default
  answer is returned when none has one. The four sample messages get the banking, the
  reports, the payroll and the default answer. The function takes the message alone, so
  the answer does not depend on the state of inference.
\<close>

theorem getQuickBooksGuidance_first_group_wins:
  "(\<forall>userMessage. getQuickBooksGuidance userMessage =
       first_matching_group coded_groups default_answer (toLowerCase userMessage))
   \<and> getQuickBooksGuidance ''How do I connect my bank account?'' = banking_answer
   \<and> getQuickBooksGuidance ''I need a P&L report'' = reports_answer
   \<and> getQuickBooksGuidance ''my payroll setup is broken'' = payroll_answer
   \<and> getQuickBooksGuidance ''xyzzy unrelated gibberish'' = default_answer"
proof -
  have "getQuickBooksGuidance ''How do I connect my bank account?'' = banking_answer" by code_simp
  moreover have "getQuickBooksGuidance ''I need a P&L report'' = reports_answer" by code_simp
  moreover have "getQuickBooksGuidance ''my payroll setup is broken'' = payroll_answer" by code_simp
  moreover have "getQuickBooksGuidance ''xyzzy unrelated gibberish'' = default_answer" by code_simp
  ultimately show ?thesis by (simp add: getQuickBooksGuidance_table)
qed

theorem getQuickBooksGuidance_first_group_wins_witness:
  "getQuickBooksGuidance ''Where do I find my 1099 forms?''
     = first_matching_group coded_groups default_answer ''where do i find my 1099 forms?''
   \<and> first_matching_group coded_groups default_answer ''where do i find my 1099 forms?'' = tax_answer"
proof -
  have "toLowerCase ''Where do I find my 1099 forms?'' = ''where do i find my 1099 forms?''"
    by code_simp
  moreover have "first_matching_group coded_groups default_answer ''where do i find my 1099 forms?'' = tax_answer"
    by code_simp
  ultimately show ?thesis
    using getQuickBooksGuidance_first_group_wins by simp
qed

text \<open>
  With the groups as the specification lists them (\<open>banking\<close> for \<open>bank\<close>, and no
  \<open>not working\<close>), two messages get other answers than the code gives.
\<close>

theorem specified_groups_differ:
  "getQuickBooksGuidance ''it is not working'' = troubleshooting_answer
   \<and> specified_fallback ''it is not working'' = default_answer
   \<and> getQuickBooksGuidance ''my bank feed'' = banking_answer
   \<and> specified_fallback ''my bank feed'' = default_answer
   \<and> troubleshooting_answer \<noteq> default_answer
   \<and> banking_answer \<noteq> default_answer"
proof -
  have "getQuickBooksGuidance ''it is not working'' = troubleshooting_answer" by code_simp
  moreover have "specified_fallback ''it is not working'' = default_answer" by code_simp
  moreover have "getQuickBooksGuidance ''my bank feed'' = banking_answer" by code_simp
  moreover have "specified_fallback ''my bank feed'' = default_answer" by code_simp
  moreover have "troubleshooting_answer \<noteq> default_answer"
    by (simp add: troubleshooting_answer_def default_answer_def)
  moreover have "banking_answer \<noteq> default_answer"
    by (simp add: banking_answer_def default_answer_def)
  ultimately show ?thesis by simp
qed

end
